theory Spec2Isabelle
  imports Complex_Main "HOL-Library.Log_Nat"
begin

section \<open>Shared data model\<close>

text \<open>
  Timestamps are instants in whole microseconds (the resolution of Python's
  \<^verbatim>\<open>datetime\<close>), already normalised to UTC. A Python float is an IEEE 754
  double, modelled by the rational number it denotes: where the source
  computes with floats (the freshness sentinel) every operation is rounded to
  the nearest double, and a float the source only stores and compares (a
  confidence) is the decimal of its literal. Severities, statuses and anomaly
  types are the strings of the source.
\<close>

type_synonym timestamp = int

text \<open>The result of a call to an external collaborator that may raise.\<close>

datatype 'a outcome = Raises | Returns 'a

text \<open>
  A column as the connector's \<^verbatim>\<open>fetch_schema\<close> returns it: a dict with the keys
  \<^verbatim>\<open>name\<close>, \<^verbatim>\<open>type\<close>, \<^verbatim>\<open>nullable\<close>, \<^verbatim>\<open>ordinal\<close>. The source reads \<^verbatim>\<open>c["name"]\<close> directly
  and the others through \<^verbatim>\<open>.get\<close>, so those may be absent (\<open>None\<close>).
\<close>

record column =
  col_name :: string
  col_type :: "string option"
  col_nullable :: "bool option"
  col_ordinal :: "int option"

text \<open>
  One entry of the list \<^verbatim>\<open>_diff_schemas\<close> builds: a dict with the key \<^verbatim>\<open>change\<close>
  (its kind), \<^verbatim>\<open>column\<close>, and depending on the kind \<^verbatim>\<open>nullable\<close>, \<^verbatim>\<open>old\<close>, \<^verbatim>\<open>new\<close>,
  \<^verbatim>\<open>old_type\<close>, \<^verbatim>\<open>new_type\<close>; a key that is absent is \<open>None\<close>.
\<close>

record change =
  change_kind :: string
  change_column :: string
  change_nullable :: "bool option"
  change_old :: "column option"
  change_new :: "column option"
  change_old_type :: "string option"
  change_new_type :: "string option"

text \<open>
  \<^verbatim>\<open>MonitoredTableModel\<close>: the columns of the \<^verbatim>\<open>monitored_tables\<close> table that the
  sentinels and the report generator read.
\<close>

record monitored_table =
  table_id :: int
  schema_name :: string
  table_name :: string
  fully_qualified_name :: string
  freshness_sla_minutes :: "int option"

text \<open>
  \<^verbatim>\<open>SchemaSnapshotModel\<close>. The column \<^verbatim>\<open>columns\<close> holds the JSON text of the column list;
  the model keeps the list that \<^verbatim>\<open>json.loads\<close> reads back from it.
\<close>

record schema_snapshot =
  snap_id :: int
  snap_table_id :: int
  snap_columns :: "column list"
  snapshot_hash :: string
  captured_at :: timestamp

text \<open>
  The \<^verbatim>\<open>detail\<close> blob of an anomaly: the change list of a schema drift, or the
  dict \<^verbatim>\<open>{last_update, sla_minutes, minutes_overdue}\<close> of a freshness violation,
  \<^verbatim>\<open>minutes_overdue\<close> being the value of the float that is stored.
\<close>

datatype anomaly_detail =
    SchemaChanges "change list"
  | FreshnessDetail timestamp int rat

text \<open>\<^verbatim>\<open>AnomalyModel\<close>, with the columns of the \<^verbatim>\<open>anomalies\<close> table.\<close>

record anomaly =
  an_id :: int
  an_table_id :: int
  an_type :: string
  an_severity :: string
  an_detail :: anomaly_detail
  detected_at :: timestamp

text \<open>
  Modelled from the spec: the declarations of the value objects \<^verbatim>\<open>Recommendation\<close>
  and \<^verbatim>\<open>Diagnosis\<close> (\<^verbatim>\<open>aegis/core/models.py\<close>) are not among the sources; the
  fields are those of the spec's data model, which the constructor calls of
  the sources and tests name too.
\<close>

record recommendation =
  rec_action :: string
  rec_description :: string
  rec_sql :: "string option"
  rec_priority :: int

record diagnosis =
  root_cause :: string
  root_cause_table :: string
  blast_radius :: "string list"
  diag_severity :: string
  diag_confidence :: rat
  recommendations :: "recommendation list"

text \<open>
  \<^verbatim>\<open>IncidentModel\<close>, with the columns of the \<^verbatim>\<open>incidents\<close> table of the initial
  migration. \<^verbatim>\<open>remediation\<close> and \<^verbatim>\<open>report\<close> are kept as the serialised text the
  orchestrator stores; \<^verbatim>\<open>diagnosis\<close> and \<^verbatim>\<open>blast_radius\<close> as the values their JSON
  text stands for.
\<close>

record incident =
  inc_id :: int
  inc_anomaly_id :: int
  inc_status :: string
  inc_severity :: string
  inc_diagnosis :: "diagnosis option"
  inc_blast_radius :: "string list option"
  inc_remediation :: "string option"
  inc_report :: "string option"
  resolved_at :: "timestamp option"
  resolved_by :: "string option"
  dismiss_reason :: "string option"
  inc_created_at :: timestamp
  inc_updated_at :: timestamp

text \<open>The store session: the rows of the three tables, in insertion order.\<close>

record store =
  snapshots :: "schema_snapshot list"
  anomalies :: "anomaly list"
  incidents :: "incident list"

text \<open>The next value of an autoincrement primary key.\<close>

definition next_id :: "int list \<Rightarrow> int" where
  "next_id ids = fold max ids 0 + 1"

text \<open>
  \<^verbatim>\<open>ORDER BY key DESC LIMIT 1\<close>: the row with the greatest key, none for no rows.
  Among rows with equal keys the database promises no order; the model takes
  the earliest in store order.
\<close>

fun latest_by :: "('a \<Rightarrow> int) \<Rightarrow> 'a list \<Rightarrow> 'a option" where
  "latest_by key [] = None"
| "latest_by key (x # xs) =
     (case latest_by key xs of
        None \<Rightarrow> Some x
      | Some y \<Rightarrow> if key y > key x then Some y else Some x)"

text \<open>
  \<^verbatim>\<open>severity_rank.get(s, 0)\<close> over
  \<^verbatim>\<open>{"critical": 4, "high": 3, "medium": 2, "low": 1}\<close>.
\<close>

definition severity_rank :: "string \<Rightarrow> nat" where
  "severity_rank s =
     (if s = ''critical'' then 4
      else if s = ''high'' then 3
      else if s = ''medium'' then 2
      else if s = ''low'' then 1
      else 0)"

text \<open>Python's \<^verbatim>\<open>str(n)\<close> for a natural number and \<^verbatim>\<open>sep.join(parts)\<close>.\<close>

fun decimal :: "nat \<Rightarrow> string" where
  "decimal n =
     (if n < 10 then [char_of (48 + n)]
      else decimal (n div 10) @ [char_of (48 + n mod 10)])"

fun join :: "string \<Rightarrow> string list \<Rightarrow> string" where
  "join sep [] = []"
| "join sep [x] = x"
| "join sep (x # y # ys) = x @ sep @ join sep (y # ys)"

section \<open>Sentinels\<close>

subsection \<open>Schema sentinel\<close>

text \<open>
  A Python dict keeps its keys in the order of their first insertion, and a
  later assignment to a key replaces the value in place.
\<close>

fun dict_set :: "('k \<times> 'v) list \<Rightarrow> 'k \<Rightarrow> 'v \<Rightarrow> ('k \<times> 'v) list" where
  "dict_set [] k v = [(k, v)]"
| "dict_set ((k', v') # d) k v =
     (if k' = k then (k, v) # d else (k', v') # dict_set d k v)"

text \<open>\<^verbatim>\<open>{c["name"]: c for c in cols}\<close>\<close>

definition by_name :: "column list \<Rightarrow> (string \<times> column) list" where
  "by_name cols = foldl (\<lambda>d c. dict_set d (col_name c) c) [] cols"

text \<open>\<^verbatim>\<open>c.get("nullable", True)\<close>\<close>

definition get_nullable :: "bool option \<Rightarrow> bool" where
  "get_nullable v = (case v of None \<Rightarrow> True | Some b \<Rightarrow> b)"

definition column_deleted :: "string \<Rightarrow> column \<Rightarrow> change" where
  "column_deleted n c =
     \<lparr>change_kind = ''column_deleted'', change_column = n, change_nullable = None,
      change_old = Some c, change_new = None,
      change_old_type = None, change_new_type = None\<rparr>"

definition column_added :: "string \<Rightarrow> column \<Rightarrow> change" where
  "column_added n c =
     \<lparr>change_kind = ''column_added'', change_column = n,
      change_nullable = Some (get_nullable (col_nullable c)),
      change_old = None, change_new = Some c,
      change_old_type = None, change_new_type = None\<rparr>"

definition type_changed :: "string \<Rightarrow> string option \<Rightarrow> string option \<Rightarrow> change" where
  "type_changed n old_type new_type =
     \<lparr>change_kind = ''type_changed'', change_column = n, change_nullable = None,
      change_old = None, change_new = None,
      change_old_type = old_type, change_new_type = new_type\<rparr>"

text \<open>\<^verbatim>\<open>SchemaSentinel._diff_schemas\<close>: three passes, in this order.\<close>

definition diff_schemas :: "column list \<Rightarrow> column list \<Rightarrow> change list" where
  "diff_schemas old new =
     (let old_by_name = by_name old;
          new_by_name = by_name new;
          deleted = concat (map (\<lambda>(n, c).
                      if map_of new_by_name n = None then [column_deleted n c] else [])
                    old_by_name);
          added = concat (map (\<lambda>(n, c).
                      if map_of old_by_name n = None then [column_added n c] else [])
                    new_by_name);
          retyped = concat (map (\<lambda>(n, c).
                      (case map_of new_by_name n of
                         None \<Rightarrow> []
                       | Some c' \<Rightarrow>
                           if col_type c \<noteq> col_type c'
                           then [type_changed n (col_type c) (col_type c')] else []))
                    old_by_name)
      in deleted @ added @ retyped)"

text \<open>The severity one change contributes in \<^verbatim>\<open>SchemaSentinel._classify_severity\<close>.\<close>

definition change_severity :: "change \<Rightarrow> string" where
  "change_severity c =
     (let kind = change_kind c in
      if kind = ''column_deleted'' then ''critical''
      else if kind = ''type_changed'' then ''critical''
      else if kind = ''column_added''
        then (if get_nullable (change_nullable c) then ''low'' else ''medium'')
      else ''medium'')"

text \<open>One round of the loop of \<^verbatim>\<open>SchemaSentinel._classify_severity\<close>.\<close>

definition severity_step :: "string \<Rightarrow> change \<Rightarrow> string" where
  "severity_step max_severity c =
     (let sev = change_severity c in
      if severity_rank sev > severity_rank max_severity then sev else max_severity)"

text \<open>\<^verbatim>\<open>SchemaSentinel._classify_severity\<close>: the loop keeps the running maximum.\<close>

definition schema_classify_severity :: "change list \<Rightarrow> string" where
  "schema_classify_severity changes = foldl severity_step ''low'' changes"

definition latest_snapshot :: "int \<Rightarrow> store \<Rightarrow> schema_snapshot option" where
  "latest_snapshot tid db =
     latest_by captured_at (filter (\<lambda>s. snap_table_id s = tid) (snapshots db))"

text \<open>
  \<^verbatim>\<open>SchemaSentinel.inspect\<close>. \<open>digest\<close> stands for the two library calls
  \<^verbatim>\<open>hashlib.sha256(json.dumps(cols, sort_keys=True).encode()).hexdigest()\<close>;
  \<open>fetched\<close> is what \<^verbatim>\<open>connector.fetch_schema\<close> did; \<open>now\<close> is the clock. The
  result is the returned anomaly and the session after the flushes.
\<close>

definition schema_inspect ::
  "(column list \<Rightarrow> string) \<Rightarrow> monitored_table \<Rightarrow> column list outcome \<Rightarrow> timestamp
     \<Rightarrow> store \<Rightarrow> anomaly option \<times> store" where
  "schema_inspect digest table fetched now db =
     (case fetched of
        Raises \<Rightarrow> (None, db)
      | Returns current_columns \<Rightarrow>
          (let current_hash = digest current_columns;
               last_snapshot = latest_snapshot (table_id table) db;
               new_snapshot =
                 \<lparr>snap_id = next_id (map snap_id (snapshots db)),
                  snap_table_id = table_id table,
                  snap_columns = current_columns,
                  snapshot_hash = current_hash,
                  captured_at = now\<rparr>;
               db1 = db\<lparr>snapshots := snapshots db @ [new_snapshot]\<rparr>
           in case last_snapshot of
                None \<Rightarrow> (None, db1)
              | Some prior \<Rightarrow>
                  if snapshot_hash prior = current_hash then (None, db1)
                  else
                    (let changes = diff_schemas (snap_columns prior) current_columns;
                         severity = schema_classify_severity changes;
                         a = \<lparr>an_id = next_id (map an_id (anomalies db1)),
                              an_table_id = table_id table,
                              an_type = ''schema_drift'',
                              an_severity = severity,
                              an_detail = SchemaChanges changes,
                              detected_at = now\<rparr>
                     in (Some a, db1\<lparr>anomalies := anomalies db1 @ [a]\<rparr>))))"

subsection \<open>Python floats\<close>

text \<open>
  The integer nearest to a rational, a tie going to the even neighbour: the
  rounding of IEEE 754 arithmetic and of Python's \<^verbatim>\<open>round\<close>.
\<close>

definition round_half_even :: "rat \<Rightarrow> int" where
  "round_half_even y =
     (let f = \<lfloor>y\<rfloor>; r = y - of_int f in
      if r < 1 / 2 then f
      else if r > 1 / 2 then f + 1
      else if even f then f else f + 1)"

text \<open>The power of two \<open>pow2 e\<close> for an integer \<open>e\<close> of either sign.\<close>

definition pow2 :: "int \<Rightarrow> rat" where
  "pow2 e = (if 0 \<le> e then 2 ^ nat e else 1 / 2 ^ nat (- e))"

text \<open>
  The binary exponent of \<open>x \<noteq> 0\<close>: the \<open>e\<close> with \<open>pow2 e \<le> \<bar>x\<bar> < pow2 (e + 1)\<close>,
  from the bit lengths of numerator and denominator (\<open>bitlen n\<close> is the number
  of binary digits of a positive \<open>n\<close>).
\<close>

definition exponent_of :: "rat \<Rightarrow> int" where
  "exponent_of x =
     (let (p, q) = quotient_of \<bar>x\<bar>;
          e = bitlen p - bitlen q
      in if pow2 e \<le> \<bar>x\<bar> then e else e - 1)"

text \<open>
  The double nearest to \<open>x\<close> (round to nearest, ties to even): the doubles with
  exponent \<open>e\<close> are the multiples of \<open>pow2 (e - 52)\<close> (53 significant bits), and
  below \<open>pow2 (- 1022)\<close> the subnormal ones are the multiples of
  \<open>pow2 (- 1074)\<close>. Every float operation of the source is the exact operation
  followed by this rounding. No value of the freshness sentinel comes near
  the overflow threshold \<open>pow2 1024\<close>: a difference of two \<^verbatim>\<open>datetime\<close> values is
  below \<open>10 ^ 18\<close> microseconds and the SLA is a value of an integer column of
  the database.
\<close>

definition double_of :: "rat \<Rightarrow> rat" where
  "double_of x =
     (if x = 0 then 0
      else (let ulp = pow2 (max (exponent_of x) (- 1022) - 52)
            in of_int (round_half_even (x / ulp)) * ulp))"

text \<open>
  Python's \<^verbatim>\<open>round(x, 1)\<close> of a float \<open>x\<close>: the exact value of \<open>x\<close> is rounded to
  the nearest tenth, a tie going to the even neighbour, and the result is the
  double nearest to that decimal.
\<close>

definition py_round1 :: "rat \<Rightarrow> rat" where
  "py_round1 x = double_of (of_int (round_half_even (x * 10)) / 10)"

subsection \<open>Freshness sentinel\<close>

text \<open>
  \<^verbatim>\<open>timedelta.total_seconds()\<close> of a difference of two instants: the true
  division of the whole microseconds by \<open>10\<^sup>6\<close>, correctly rounded.
\<close>

definition total_seconds :: "int \<Rightarrow> rat" where
  "total_seconds micros = double_of (of_int micros / 1000000)"

text \<open>
  \<^verbatim>\<open>FreshnessSentinel._classify_severity\<close>. The division converts the integer
  \<^verbatim>\<open>sla\<close> to a float first; the comparisons of the float \<^verbatim>\<open>ratio\<close> with 5 and 2
  are exact.
\<close>

definition freshness_classify_severity :: "rat \<Rightarrow> int \<Rightarrow> string" where
  "freshness_classify_severity minutes_since sla =
     (let ratio = double_of (minutes_since / double_of (of_int sla)) in
      if ratio > 5 then ''critical''
      else if ratio > 2 then ''high''
      else ''medium'')"

text \<open>
  \<^verbatim>\<open>FreshnessSentinel.inspect\<close>. \<^verbatim>\<open>not table.freshness_sla_minutes\<close> holds for an unset
  SLA and for 0. \<open>fetched\<close> is what \<^verbatim>\<open>connector.fetch_last_update_time\<close> did.
  \<^verbatim>\<open>minutes_since\<close> is the float quotient of the seconds by 60; Python compares
  a float with an integer exactly, and converts the integer to a float for
  the subtraction.
\<close>

definition freshness_inspect ::
  "monitored_table \<Rightarrow> timestamp option outcome \<Rightarrow> timestamp \<Rightarrow> store
     \<Rightarrow> anomaly option \<times> store" where
  "freshness_inspect table fetched now db =
     (case freshness_sla_minutes table of
        None \<Rightarrow> (None, db)
      | Some sla \<Rightarrow>
          if sla = 0 then (None, db)
          else
            (case fetched of
               Raises \<Rightarrow> (None, db)
             | Returns None \<Rightarrow> (None, db)
             | Returns (Some last_update) \<Rightarrow>
                 (let minutes_since = double_of (total_seconds (now - last_update) / 60) in
                  if minutes_since \<le> of_int sla then (None, db)
                  else
                    (let minutes_overdue =
                           double_of (minutes_since - double_of (of_int sla));
                         severity = freshness_classify_severity minutes_since sla;
                         a = \<lparr>an_id = next_id (map an_id (anomalies db)),
                              an_table_id = table_id table,
                              an_type = ''freshness_violation'',
                              an_severity = severity,
                              an_detail =
                                FreshnessDetail last_update sla (py_round1 minutes_overdue),
                              detected_at = now\<rparr>
                     in (Some a, db\<lparr>anomalies := anomalies db @ [a]\<rparr>)))))"

section \<open>Orchestrator and incident endpoints\<close>

text \<open>
  The collaborators of the orchestrator, each as what its call does: the
  architect's \<^verbatim>\<open>analyze\<close>, the executor's \<^verbatim>\<open>prepare\<close> (its result serialised) and
  the report generator (its result serialised). They read the session and do
  not write to it.
\<close>

record pipeline =
  architect_analyze :: "anomaly \<Rightarrow> store \<Rightarrow> diagnosis outcome"
  executor_prepare :: "anomaly \<Rightarrow> diagnosis \<Rightarrow> string outcome"
  report_generate :: "incident \<Rightarrow> anomaly \<Rightarrow> store \<Rightarrow> string outcome"

definition open_statuses :: "string list" where
  "open_statuses = [''open'', ''investigating'', ''pending_review'']"

text \<open>
  The \<^verbatim>\<open>WHERE\<close> clauses of \<^verbatim>\<open>_find_open_incident\<close> on one incident row, joined to
  its anomaly row through \<^verbatim>\<open>incidents.anomaly_id = anomalies.id\<close>.
\<close>

definition open_match :: "int \<Rightarrow> string \<Rightarrow> store \<Rightarrow> incident \<Rightarrow> bool" where
  "open_match tid anomaly_type db i =
     ((\<exists>a \<in> set (anomalies db).
         an_id a = inc_anomaly_id i \<and> an_table_id a = tid \<and> an_type a = anomaly_type)
      \<and> inc_status i \<in> set open_statuses)"

definition open_incidents_for :: "int \<Rightarrow> string \<Rightarrow> store \<Rightarrow> incident list" where
  "open_incidents_for tid anomaly_type db =
     filter (open_match tid anomaly_type db) (incidents db)"

text \<open>\<^verbatim>\<open>Orchestrator._find_open_incident\<close>\<close>

definition find_open_incident :: "int \<Rightarrow> string \<Rightarrow> store \<Rightarrow> incident option" where
  "find_open_incident tid anomaly_type db =
     latest_by inc_created_at (open_incidents_for tid anomaly_type db)"

text \<open>A flush of a changed incident: its row, found by primary key, is replaced.\<close>

definition update_incident :: "incident \<Rightarrow> store \<Rightarrow> store" where
  "update_incident i db =
     db\<lparr>incidents := map (\<lambda>j. if inc_id j = inc_id i then i else j) (incidents db)\<rparr>"

text \<open>\<^verbatim>\<open>Orchestrator._merge_anomaly\<close> (the broadcast does not touch the store).\<close>

definition merge_anomaly :: "incident \<Rightarrow> anomaly \<Rightarrow> timestamp \<Rightarrow> store \<Rightarrow> incident \<times> store" where
  "merge_anomaly inc a now db =
     (let inc1 = (if severity_rank (an_severity a) > severity_rank (inc_severity inc)
                  then inc\<lparr>inc_severity := an_severity a\<rparr> else inc);
          inc2 = inc1\<lparr>inc_updated_at := now\<rparr>
      in (inc2, update_incident inc2 db))"

text \<open>
  \<^verbatim>\<open>Orchestrator.handle_anomaly\<close>. A collaborator that raises leaves the fields
  of its step unset, as the \<^verbatim>\<open>try\<close> blocks of the source do.
\<close>

definition handle_anomaly :: "pipeline \<Rightarrow> anomaly \<Rightarrow> timestamp \<Rightarrow> store \<Rightarrow> incident \<times> store" where
  "handle_anomaly p a now db =
     (case find_open_incident (an_table_id a) (an_type a) db of
        Some existing \<Rightarrow> merge_anomaly existing a now db
      | None \<Rightarrow>
          (let inc0 = \<lparr>inc_id = next_id (map inc_id (incidents db)),
                       inc_anomaly_id = an_id a,
                       inc_status = ''investigating'',
                       inc_severity = an_severity a,
                       inc_diagnosis = None, inc_blast_radius = None,
                       inc_remediation = None, inc_report = None,
                       resolved_at = None, resolved_by = None, dismiss_reason = None,
                       inc_created_at = now, inc_updated_at = now\<rparr>;
               db0 = db\<lparr>incidents := incidents db @ [inc0]\<rparr>;
               inc1 = (case architect_analyze p a db0 of
                         Raises \<Rightarrow> inc0
                       | Returns d \<Rightarrow>
                           inc0\<lparr>inc_diagnosis := Some d,
                                inc_blast_radius := Some (blast_radius d),
                                inc_severity := diag_severity d\<rparr>);
               inc2 = (case inc_diagnosis inc1 of
                         None \<Rightarrow> inc1
                       | Some d \<Rightarrow>
                           (case executor_prepare p a d of
                              Raises \<Rightarrow> inc1
                            | Returns r \<Rightarrow> inc1\<lparr>inc_remediation := Some r\<rparr>));
               inc3 = inc2\<lparr>inc_status := ''pending_review''\<rparr>;
               inc4 = (case report_generate p inc3 a db0 of
                         Raises \<Rightarrow> inc3
                       | Returns r \<Rightarrow> inc3\<lparr>inc_report := Some r\<rparr>);
               inc5 = inc4\<lparr>inc_updated_at := now\<rparr>
           in (inc5, update_incident inc5 db0)))"


text \<open>The endpoints answer a missing incident with \<^verbatim>\<open>HTTPException(404)\<close>.\<close>

datatype http_error = NotFound

text \<open>\<^verbatim>\<open>db.get(IncidentModel, incident_id)\<close>\<close>

definition get_incident :: "int \<Rightarrow> store \<Rightarrow> incident option" where
  "get_incident incident_id db = find (\<lambda>i. inc_id i = incident_id) (incidents db)"

text \<open>\<^verbatim>\<open>approve_incident\<close> (the request body is not read).\<close>

definition approve_incident :: "int \<Rightarrow> timestamp \<Rightarrow> store \<Rightarrow> http_error + incident \<times> store" where
  "approve_incident incident_id now db =
     (case get_incident incident_id db of
        None \<Rightarrow> Inl NotFound
      | Some inc \<Rightarrow>
          (let inc' = inc\<lparr>inc_status := ''resolved'',
                          resolved_at := Some now,
                          resolved_by := Some ''api_user''\<rparr>
           in Inr (inc', update_incident inc' db)))"

text \<open>\<^verbatim>\<open>dismiss_incident\<close>; \<open>reason\<close> is \<^verbatim>\<open>body.reason\<close>.\<close>

definition dismiss_incident ::
  "int \<Rightarrow> string \<Rightarrow> timestamp \<Rightarrow> store \<Rightarrow> http_error + incident \<times> store" where
  "dismiss_incident incident_id reason now db =
     (case get_incident incident_id db of
        None \<Rightarrow> Inl NotFound
      | Some inc \<Rightarrow>
          (let inc' = inc\<lparr>inc_status := ''dismissed'',
                          dismiss_reason := Some reason,
                          resolved_at := Some now\<rparr>
           in Inr (inc', update_incident inc' db)))"

text \<open>
  The operations that write the \<^verbatim>\<open>status\<close> of an incident: the two endpoints and
  the orchestrator. A request answered with 404 leaves the store as it was.
\<close>

datatype operation =
    Approve int
  | Dismiss int string
  | HandleAnomaly anomaly

fun apply_operation :: "pipeline \<Rightarrow> operation \<Rightarrow> timestamp \<Rightarrow> store \<Rightarrow> store" where
  "apply_operation p (Approve incident_id) now db =
     (case approve_incident incident_id now db of Inl _ \<Rightarrow> db | Inr (_, db') \<Rightarrow> db')"
| "apply_operation p (Dismiss incident_id reason) now db =
     (case dismiss_incident incident_id reason now db of Inl _ \<Rightarrow> db | Inr (_, db') \<Rightarrow> db')"
| "apply_operation p (HandleAnomaly a) now db = snd (handle_anomaly p a now db)"

definition terminal_statuses :: "string list" where
  "terminal_statuses = [''resolved'', ''dismissed'']"

section \<open>Report generator\<close>

text \<open>
  Modelled from the spec: the declarations of \<^verbatim>\<open>RootCauseDetail\<close>,
  \<^verbatim>\<open>BlastRadiusDetail\<close>, \<^verbatim>\<open>RecommendedAction\<close>, \<^verbatim>\<open>Remediation\<close> and \<^verbatim>\<open>IncidentReport\<close>
  (\<^verbatim>\<open>aegis/core/models.py\<close>) are not among the sources; the fields are those of
  the spec's canonical report, under the names the constructor calls of the
  report generator give them. The actions of a \<^verbatim>\<open>Remediation\<close> are dicts with the
  keys \<^verbatim>\<open>type\<close>, \<^verbatim>\<open>description\<close> and, optionally, \<^verbatim>\<open>priority\<close> and \<^verbatim>\<open>status\<close>.
\<close>

record root_cause_detail =
  explanation :: string
  source_table_name :: string
  rc_confidence :: rat

record blast_radius_detail =
  total_affected :: nat
  affected_tables :: "string list"

record recommended_action =
  ra_action :: string
  ra_description :: string
  ra_priority :: int
  ra_status :: string

record remediation_action =
  act_type :: string
  act_description :: string
  act_priority :: "int option"
  act_status :: "string option"

record remediation =
  rem_actions :: "remediation_action list"
  rem_summary :: string
  rem_generated_at :: timestamp

text \<open>
  \<^verbatim>\<open>IncidentReport\<close>, without \<^verbatim>\<open>anomaly_details\<close> and \<^verbatim>\<open>timeline\<close>: they are built
  from the anomaly's JSON detail and from formatted floats, and no other field
  reads them.
\<close>

record incident_report =
  rep_incident_id :: int
  rep_title :: string
  rep_severity :: string
  rep_status :: string
  rep_generated_at :: timestamp
  rep_summary :: string
  rep_root_cause :: root_cause_detail
  rep_blast_radius :: blast_radius_detail
  rep_recommended_actions :: "recommended_action list"

text \<open>\<^verbatim>\<open>_TYPE_TITLES.get(t)\<close>\<close>

definition type_titles :: "string \<Rightarrow> string option" where
  "type_titles t =
     (if t = ''schema_drift'' then Some ''Schema Drift''
      else if t = ''freshness_violation'' then Some ''Freshness Breach''
      else if t = ''freshness_breach'' then Some ''Freshness Breach''
      else None)"

text \<open>\<^verbatim>\<open>s.replace("_", " ").title()\<close> on ASCII text.\<close>

definition is_lower :: "char \<Rightarrow> bool" where
  "is_lower c = (97 \<le> (of_char c :: nat) \<and> (of_char c :: nat) \<le> 122)"

definition is_upper :: "char \<Rightarrow> bool" where
  "is_upper c = (65 \<le> (of_char c :: nat) \<and> (of_char c :: nat) \<le> 90)"

definition to_upper :: "char \<Rightarrow> char" where
  "to_upper c = (if is_lower c then char_of ((of_char c :: nat) - 32) else c)"

definition to_lower :: "char \<Rightarrow> char" where
  "to_lower c = (if is_upper c then char_of ((of_char c :: nat) + 32) else c)"

fun title_from :: "bool \<Rightarrow> string \<Rightarrow> string" where
  "title_from prev_cased [] = []"
| "title_from prev_cased (c # cs) =
     (if is_lower c \<or> is_upper c
      then (if prev_cased then to_lower c else to_upper c) # title_from True cs
      else c # title_from False cs)"

definition title_of_type :: "string \<Rightarrow> string" where
  "title_of_type t =
     title_from False (map (\<lambda>c. if c = CHR ''_'' then CHR '' '' else c) t)"

definition type_label_of :: "string \<Rightarrow> string" where
  "type_label_of t = (case type_titles t of Some l \<Rightarrow> l | None \<Rightarrow> title_of_type t)"

text \<open>\<^verbatim>\<open>ReportGenerator._build_root_cause\<close>\<close>

definition build_root_cause :: "diagnosis option \<Rightarrow> string \<Rightarrow> root_cause_detail" where
  "build_root_cause diag tname =
     (case diag of
        None \<Rightarrow>
          \<lparr>explanation = ''Analysis unavailable'', source_table_name = tname,
           rc_confidence = 0\<rparr>
      | Some d \<Rightarrow>
          \<lparr>explanation = root_cause d, source_table_name = root_cause_table d,
           rc_confidence = diag_confidence d\<rparr>)"

text \<open>\<^verbatim>\<open>ReportGenerator._build_blast_radius\<close>\<close>

definition build_blast_radius :: "diagnosis option \<Rightarrow> blast_radius_detail" where
  "build_blast_radius diag =
     (case diag of
        None \<Rightarrow> \<lparr>total_affected = 0, affected_tables = []\<rparr>
      | Some d \<Rightarrow>
          \<lparr>total_affected = length (blast_radius d), affected_tables = blast_radius d\<rparr>)"

text \<open>\<^verbatim>\<open>ReportGenerator._build_actions\<close>\<close>

definition build_actions :: "remediation option \<Rightarrow> recommended_action list" where
  "build_actions rem =
     (case rem of
        None \<Rightarrow> []
      | Some r \<Rightarrow>
          map (\<lambda>a. \<lparr>ra_action = act_type a, ra_description = act_description a,
                    ra_priority = (case act_priority a of None \<Rightarrow> 1 | Some n \<Rightarrow> n),
                    ra_status = (case act_status a of None \<Rightarrow> ''manual'' | Some s \<Rightarrow> s)\<rparr>)
              (rem_actions r))"

text \<open>\<^verbatim>\<open>ReportGenerator._build_summary\<close>\<close>

definition build_summary ::
  "string \<Rightarrow> string \<Rightarrow> string \<Rightarrow> root_cause_detail \<Rightarrow> blast_radius_detail \<Rightarrow> string" where
  "build_summary type_label tname severity rc br =
     join '' ''
       ([type_label @ '' detected on '' @ tname @ '' ('' @ severity @ '' severity).'']
        @ [if rc_confidence rc > 0 then ''Root cause: '' @ explanation rc @ ''.''
           else ''Root cause analysis unavailable.'']
        @ (if total_affected br > 0
           then [decimal (total_affected br) @ '' downstream table(s) affected.'']
           else []))"

text \<open>\<^verbatim>\<open>ReportGenerator.generate\<close>; \<open>now\<close> is the clock.\<close>

definition generate ::
  "incident \<Rightarrow> anomaly \<Rightarrow> monitored_table \<Rightarrow> diagnosis option \<Rightarrow> remediation option
     \<Rightarrow> timestamp \<Rightarrow> incident_report" where
  "generate inc a table diag rem now =
     (let tname = fully_qualified_name table;
          type_label = type_label_of (an_type a);
          title = type_label @ '' on '' @ tname;
          rc = build_root_cause diag tname;
          br = build_blast_radius diag;
          actions = build_actions rem;
          summary = build_summary type_label tname (inc_severity inc) rc br
      in \<lparr>rep_incident_id = inc_id inc,
          rep_title = title,
          rep_severity = inc_severity inc,
          rep_status = inc_status inc,
          rep_generated_at = now,
          rep_summary = summary,
          rep_root_cause = rc,
          rep_blast_radius = br,
          rep_recommended_actions = actions\<rparr>)"

section \<open>SQL parser\<close>

text \<open>
  The tree \<^verbatim>\<open>sqlglot\<close> parses a statement to. A node has its class, for a
  \<^verbatim>\<open>Table\<close> node the texts of its \<^verbatim>\<open>catalog\<close>, \<^verbatim>\<open>db\<close> and \<^verbatim>\<open>name\<close> (the empty string
  when absent), and its child expressions in \<^verbatim>\<open>iter_expressions\<close> order. The
  classes the source tests for are constructors of their own.
\<close>

datatype node_type = Insert | Create | Merge | Select | Subquery | Table | Other string

datatype expression =
  Expression (node_kind: node_type) (tbl_catalog: string) (tbl_db: string)
    (tbl_name: string) (args: "expression list")

text \<open>
  What \<^verbatim>\<open>sqlglot.parse\<close> did: it raised \<^verbatim>\<open>sqlglot.errors.ParseError\<close>, it raised
  an exception of another class (\<^verbatim>\<open>TokenError\<close> for text the tokenizer rejects,
  \<^verbatim>\<open>ValueError\<close> for an unknown dialect; the class name is kept), or it
  returned a list of statements, some possibly \<^verbatim>\<open>None\<close>. The parser is a library
  outside the repository, so it is a parameter of \<open>extract_lineage_edges\<close>.
\<close>

datatype parse_result = ParseError | OtherError string | Parsed "expression option list"

record parsed_edge =
  pe_source :: string
  pe_target :: string
  pe_confidence :: rat

text \<open>\<^verbatim>\<open>_table_name\<close>\<close>

definition sql_table_name :: "expression \<Rightarrow> string" where
  "sql_table_name t =
     join ''.''
       ((if tbl_catalog t \<noteq> [] then [tbl_catalog t] else [])
        @ (if tbl_db t \<noteq> [] then [tbl_db t] else [])
        @ [tbl_name t])"

text \<open>
  The breadth-first walk behind \<^verbatim>\<open>find\<close> and \<^verbatim>\<open>find_all\<close>: the queue holds each
  node with the number of \<^verbatim>\<open>Subquery\<close> nodes among its ancestors below the root,
  which is what the parent walk of \<^verbatim>\<open>_compute_confidence\<close> counts for it.
\<close>

function walk :: "(expression \<times> nat) list \<Rightarrow> (expression \<times> nat) list" where
  "walk [] = []"
| "walk ((e, d) # queue) =
     (e, d) # walk (queue @ map (\<lambda>c. (c, if node_kind e = Subquery then d + 1 else d)) (args e))"
  by pat_completeness auto
termination
proof (relation "measure (\<lambda>q. sum_list (map (\<lambda>(e, d). size e) q))")
  show "wf (measure (\<lambda>q. sum_list (map (\<lambda>(e, d). size e) q)))" by simp
next
  fix e :: expression and d :: nat and queue :: "(expression \<times> nat) list"
  have "sum_list (map size (args e)) < size e"
    by (cases e) (simp add: size_list_conv_sum_list)
  then show "(queue @ map (\<lambda>c. (c, if node_kind e = Subquery then d + 1 else d)) (args e),
              (e, d) # queue)
             \<in> measure (\<lambda>q. sum_list (map (\<lambda>(e, d). size e) q))"
    by (simp add: comp_def)
qed

text \<open>The walk from a statement: the root is no ancestor that counts.\<close>

definition walk_root :: "expression \<Rightarrow> (expression \<times> nat) list" where
  "walk_root statement = (statement, 0) # walk (map (\<lambda>c. (c, 0)) (args statement))"

definition find_all_tables :: "expression \<Rightarrow> (expression \<times> nat) list" where
  "find_all_tables statement =
     filter (\<lambda>(e, d). node_kind e = Table) (walk_root statement)"

text \<open>\<^verbatim>\<open>statement.find(exp.Table)\<close>\<close>

definition find_table :: "expression \<Rightarrow> expression option" where
  "find_table statement =
     (case find_all_tables statement of [] \<Rightarrow> None | (t, d) # _ \<Rightarrow> Some t)"

text \<open>\<^verbatim>\<open>_extract_target\<close>\<close>

definition extract_target :: "expression \<Rightarrow> string option" where
  "extract_target statement =
     (if node_kind statement = Insert then map_option sql_table_name (find_table statement)
      else if node_kind statement = Create then map_option sql_table_name (find_table statement)
      else if node_kind statement = Merge then map_option sql_table_name (find_table statement)
      else None)"

text \<open>
  \<^verbatim>\<open>_compute_confidence\<close>, from the count of \<^verbatim>\<open>Subquery\<close> nodes its loop ends with.
\<close>

definition compute_confidence :: "nat \<Rightarrow> rat" where
  "compute_confidence depth =
     (if depth = 0 then 1 else if depth \<le> 2 then 8 / 10 else 6 / 10)"

text \<open>The loop of \<^verbatim>\<open>_extract_sources\<close> over the tables found, with its \<^verbatim>\<open>seen\<close> set.\<close>

fun sources_loop :: "(expression \<times> nat) list \<Rightarrow> string \<Rightarrow> string set \<Rightarrow> (string \<times> rat) list" where
  "sources_loop [] target seen = []"
| "sources_loop ((t, d) # rest) target seen =
     (let name = sql_table_name t in
      if name = target \<or> name \<in> seen then sources_loop rest target seen
      else (name, compute_confidence d) # sources_loop rest target (insert name seen))"

text \<open>\<^verbatim>\<open>_extract_sources\<close>\<close>

definition extract_sources :: "expression \<Rightarrow> string \<Rightarrow> (string \<times> rat) list" where
  "extract_sources statement target = sources_loop (find_all_tables statement) target {}"

text \<open>The edges one parsed statement contributes in \<^verbatim>\<open>extract_lineage_edges\<close>.\<close>

definition statement_edges :: "expression option \<Rightarrow> parsed_edge list" where
  "statement_edges statement =
     (case statement of
        None \<Rightarrow> []
      | Some st \<Rightarrow>
          (case extract_target st of
             None \<Rightarrow> []
           | Some target \<Rightarrow>
               map (\<lambda>(source, confidence).
                      \<lparr>pe_source = source, pe_target = target, pe_confidence = confidence\<rparr>)
                   (extract_sources st target)))"

text \<open>
  \<^verbatim>\<open>extract_lineage_edges\<close>. The \<^verbatim>\<open>try\<close> around the call of the parser has the one
  handler \<^verbatim>\<open>except sqlglot.errors.ParseError\<close>, so an exception of any other
  class leaves the function: the result is \<open>Inl\<close> of its class name, and \<open>Inr\<close> of
  the edges when the function returns.
\<close>

definition extract_lineage_edges ::
  "(string \<Rightarrow> string \<Rightarrow> parse_result) \<Rightarrow> string \<Rightarrow> string
     \<Rightarrow> string + parsed_edge list" where
  "extract_lineage_edges parse sql dialect =
     (case parse sql dialect of
        ParseError \<Rightarrow> Inr []
      | OtherError cls \<Rightarrow> Inl cls
      | Parsed statements \<Rightarrow> Inr (concat (map statement_edges statements)))"

section \<open>Lineage graph\<close>

text \<open>\<^verbatim>\<open>LineageEdgeModel\<close> and the node dicts \<^verbatim>\<open>_bfs\<close> returns.\<close>

record lineage_edge =
  source_table :: string
  target_table :: string
  relationship_type :: string
  edge_confidence :: rat
  first_seen_at :: timestamp
  last_seen_at :: timestamp

record lineage_node =
  node_table :: string
  node_depth :: int
  node_confidence :: rat

text \<open>\<^verbatim>\<open>STALE_DAYS = 30\<close>; \<^verbatim>\<open>cutoff = now - timedelta(days=STALE_DAYS)\<close>.\<close>

definition stale_days :: int where
  "stale_days = 30"

definition stale_cutoff :: "timestamp \<Rightarrow> timestamp" where
  "stale_cutoff now = now - stale_days * 86400 * 1000000"

text \<open>
  The query of one round of \<^verbatim>\<open>_bfs\<close>: the edges leaving \<open>current\<close> (downstream)
  or entering it (any other direction) that were seen since the cutoff, in
  store order.
\<close>

definition query_edges ::
  "string \<Rightarrow> timestamp \<Rightarrow> lineage_edge list \<Rightarrow> string \<Rightarrow> lineage_edge list" where
  "query_edges direction cutoff edges current =
     filter (\<lambda>e. (if direction = ''downstream'' then source_table e else target_table e)
                    = current
                  \<and> last_seen_at e \<ge> cutoff) edges"

definition neighbor_of :: "string \<Rightarrow> lineage_edge \<Rightarrow> string" where
  "neighbor_of direction e =
     (if direction = ''downstream'' then target_table e else source_table e)"

text \<open>
  The \<^verbatim>\<open>for edge in edges\<close> loop of \<^verbatim>\<open>_bfs\<close> on the state
  \<open>(visited, results, queue)\<close>.
\<close>

fun visit_edges ::
  "string \<Rightarrow> int \<Rightarrow> lineage_edge list
     \<Rightarrow> string set \<times> lineage_node list \<times> (string \<times> int) list
     \<Rightarrow> string set \<times> lineage_node list \<times> (string \<times> int) list" where
  "visit_edges direction current_depth [] state = state"
| "visit_edges direction current_depth (e # es) (visited, results, queue) =
     (let neighbor = neighbor_of direction e in
      if neighbor \<notin> visited
      then visit_edges direction current_depth es
             (insert neighbor visited,
              results @ [\<lparr>node_table = neighbor, node_depth = current_depth + 1,
                          node_confidence = edge_confidence e\<rparr>],
              queue @ [(neighbor, current_depth + 1)])
      else visit_edges direction current_depth es (visited, results, queue))"

text \<open>The tables an edge list mentions.\<close>

definition endpoints :: "lineage_edge list \<Rightarrow> string set" where
  "endpoints edges = set (map source_table edges) \<union> set (map target_table edges)"

text \<open>
  The \<^verbatim>\<open>while queue\<close> loop of \<^verbatim>\<open>_bfs\<close>. Every round either shortens the queue
  with no new node visited, or visits a table of the edge list that was not
  visited before; so the loop ends.
\<close>

function bfs_loop ::
  "string \<Rightarrow> int \<Rightarrow> timestamp \<Rightarrow> lineage_edge list
     \<Rightarrow> string set \<times> lineage_node list \<times> (string \<times> int) list \<Rightarrow> lineage_node list" where
  "bfs_loop direction depth cutoff edges (visited, results, []) = results"
| "bfs_loop direction depth cutoff edges (visited, results, (current, current_depth) # queue) =
     (if current_depth \<ge> depth
      then bfs_loop direction depth cutoff edges (visited, results, queue)
      else bfs_loop direction depth cutoff edges
             (visit_edges direction current_depth
                (query_edges direction cutoff edges current) (visited, results, queue)))"
  by pat_completeness auto

lemma visit_edges_progress:
  assumes "neighbor_of direction ` set es \<subseteq> N" and "finite N"
    and "visit_edges direction cd es (visited, results, queue) = (visited', results', queue')"
  shows "card (N - visited') < card (N - visited)
         \<or> (visited' = visited \<and> queue' = queue)"
    and "card (N - visited') \<le> card (N - visited)"
  using assms
proof (induction es arbitrary: visited results queue)
  case Nil
  {
    case 1
    then show ?case by simp
  next
    case 2
    then show ?case by simp
  }
next
  case (Cons e es)
  let ?n = "neighbor_of direction e"
  {
    case 1
    show ?case
    proof (cases "?n \<in> visited")
      case True
      with "1.prems" Cons.IH(1)[of visited results queue] show ?thesis by simp
    next
      case False
      let ?v = "insert ?n visited"
      from "1.prems"(1) have nN: "?n \<in> N" by simp
      from False "1.prems"(3) have step:
        "visit_edges direction cd es
           (?v, results @ [\<lparr>node_table = ?n, node_depth = cd + 1,
                             node_confidence = edge_confidence e\<rparr>],
            queue @ [(?n, cd + 1)]) = (visited', results', queue')"
        by (simp add: Let_def)
      from "1.prems"(1) have sub: "neighbor_of direction ` set es \<subseteq> N" by simp
      from Cons.IH(2)[OF sub "1.prems"(2) step]
      have "card (N - visited') \<le> card (N - ?v)" .
      also have "card (N - ?v) < card (N - visited)"
        using nN False "1.prems"(2)
        by (intro psubset_card_mono) auto
      finally show ?thesis by simp
    qed
  next
    case 2
    show ?case
    proof (cases "?n \<in> visited")
      case True
      with "2.prems" Cons.IH(2)[of visited results queue] show ?thesis by simp
    next
      case False
      let ?v = "insert ?n visited"
      from False "2.prems"(3) have step:
        "visit_edges direction cd es
           (?v, results @ [\<lparr>node_table = ?n, node_depth = cd + 1,
                             node_confidence = edge_confidence e\<rparr>],
            queue @ [(?n, cd + 1)]) = (visited', results', queue')"
        by (simp add: Let_def)
      from "2.prems"(1) have sub: "neighbor_of direction ` set es \<subseteq> N" by simp
      from Cons.IH(2)[OF sub "2.prems"(2) step]
      have "card (N - visited') \<le> card (N - ?v)" .
      also have "card (N - ?v) \<le> card (N - visited)"
        using "2.prems"(2) by (intro card_mono) auto
      finally show ?thesis .
    qed
  }
qed

lemma query_edges_neighbors:
  "neighbor_of direction ` set (query_edges direction cutoff edges current) \<subseteq> endpoints edges"
  by (auto simp: query_edges_def neighbor_of_def endpoints_def)

termination bfs_loop
proof (relation "inv_image (less_than <*lex*> less_than)
         (\<lambda>(direction, depth, cutoff, edges, visited, results, queue).
            (card (endpoints edges - visited), length queue))", goal_cases)
  case 1
  show ?case by (intro wf_inv_image wf_lex_prod wf_less_than)
next
  case (2 direction depth cutoff edges visited results current current_depth queue)
  show ?case by simp
next
  case (3 direction depth cutoff edges visited results current current_depth queue)
  obtain visited' results' queue' where v:
    "visit_edges direction current_depth (query_edges direction cutoff edges current)
       (visited, results, queue) = (visited', results', queue')"
    by (cases "visit_edges direction current_depth
                 (query_edges direction cutoff edges current) (visited, results, queue)")
  have fin: "finite (endpoints edges)" by (simp add: endpoints_def)
  from visit_edges_progress(1)[OF query_edges_neighbors fin v]
  show ?case unfolding v by auto
qed

text \<open>\<^verbatim>\<open>LineageGraph._bfs\<close> over the edge relation \<open>edges\<close> at the time \<open>now\<close>.\<close>

definition bfs :: "lineage_edge list \<Rightarrow> timestamp \<Rightarrow> string \<Rightarrow> int \<Rightarrow> string \<Rightarrow> lineage_node list" where
  "bfs edges now start depth direction =
     bfs_loop direction depth (stale_cutoff now) edges ({start}, [], [(start, 0)])"

definition get_upstream :: "lineage_edge list \<Rightarrow> timestamp \<Rightarrow> string \<Rightarrow> int \<Rightarrow> lineage_node list" where
  "get_upstream edges now table depth = bfs edges now table depth ''upstream''"

definition get_downstream :: "lineage_edge list \<Rightarrow> timestamp \<Rightarrow> string \<Rightarrow> int \<Rightarrow> lineage_node list" where
  "get_downstream edges now table depth = bfs edges now table depth ''downstream''"

subsection \<open>Notions for the properties of the traversal\<close>

text \<open>
  One hop of a traversal: \<open>y\<close> is the far end of an edge the query for \<open>x\<close>
  returns. A table is reachable in \<open>k\<close> hops when it is related to the start
  by the \<open>k\<close>-fold composition of this relation.
\<close>

definition hop_rel :: "string \<Rightarrow> timestamp \<Rightarrow> lineage_edge list \<Rightarrow> (string \<times> string) set" where
  "hop_rel direction cutoff edges =
     {(x, y). \<exists>e \<in> set (query_edges direction cutoff edges x). neighbor_of direction e = y}"

text \<open>The table and depth of a result node, as the queue holds them.\<close>

definition node_key :: "lineage_node \<Rightarrow> string \<times> int" where
  "node_key n = (node_table n, node_depth n)"

text \<open>The node one edge adds to the results at depth \<open>current_depth\<close>.\<close>

definition node_of_edge :: "string \<Rightarrow> int \<Rightarrow> lineage_edge \<Rightarrow> lineage_node" where
  "node_of_edge direction current_depth e =
     \<lparr>node_table = neighbor_of direction e, node_depth = current_depth + 1,
      node_confidence = edge_confidence e\<rparr>"

text \<open>The edges of one query that lead to a table not visited so far, each table once.\<close>

fun new_edges :: "string \<Rightarrow> string set \<Rightarrow> lineage_edge list \<Rightarrow> lineage_edge list" where
  "new_edges direction visited [] = []"
| "new_edges direction visited (e # es) =
     (if neighbor_of direction e \<notin> visited
      then e # new_edges direction (insert (neighbor_of direction e) visited) es
      else new_edges direction visited es)"

text \<open>
  \<open>first_reached direction depth cutoff edges order n\<close>: in the sequence \<open>order\<close>
  of tables with their depths, some table \<open>p\<close> at a depth below the bound is
  the first one that has an edge to the table of \<open>n\<close>; \<open>n\<close> is one level deeper
  and carries the confidence of the first edge of the query for \<open>p\<close> that
  leads to it.
\<close>

definition first_reached ::
  "string \<Rightarrow> int \<Rightarrow> timestamp \<Rightarrow> lineage_edge list \<Rightarrow> (string \<times> int) list \<Rightarrow> lineage_node
     \<Rightarrow> bool" where
  "first_reached direction depth cutoff edges order n =
     (\<exists>before p dp after e.
        order = before @ (p, dp) # after
        \<and> dp < depth
        \<and> node_depth n = dp + 1
        \<and> find (\<lambda>e. neighbor_of direction e = node_table n)
             (query_edges direction cutoff edges p) = Some e
        \<and> node_confidence n = edge_confidence e
        \<and> (\<forall>(p', dp') \<in> set before.
              dp' < depth \<longrightarrow>
              node_table n \<notin> neighbor_of direction ` set (query_edges direction cutoff edges p')))"

text \<open>The invariant of the \<^verbatim>\<open>while\<close> loop; \<open>processed\<close> are the entries popped so far.\<close>

definition bfs_inv ::
  "string \<Rightarrow> int \<Rightarrow> timestamp \<Rightarrow> lineage_edge list \<Rightarrow> string \<Rightarrow> (string \<times> int) list
     \<Rightarrow> string set \<Rightarrow> lineage_node list \<Rightarrow> (string \<times> int) list \<Rightarrow> bool" where
  "bfs_inv direction depth cutoff edges start processed visited results queue =
     (processed @ queue = (start, 0) # map node_key results
      \<and> visited = fst ` set (processed @ queue)
      \<and> distinct (map fst (processed @ queue))
      \<and> (\<forall>(p, dp) \<in> set processed.
            dp < depth \<longrightarrow>
            neighbor_of direction ` set (query_edges direction cutoff edges p) \<subseteq> visited)
      \<and> (\<forall>n \<in> set results. first_reached direction depth cutoff edges processed n)
      \<and> (\<forall>(x, k) \<in> set (processed @ queue).
            0 \<le> k \<and> (start, x) \<in> hop_rel direction cutoff edges ^^ nat k)
      \<and> sorted (map snd (processed @ queue))
      \<and> (\<forall>(x, k) \<in> set queue. \<forall>(y, j) \<in> set queue. k \<le> j + 1))"

section \<open>Fixtures\<close>

text \<open>
  The table and the baseline columns of the repository's test fixtures
  (\<^verbatim>\<open>tests/conftest.py\<close>), and an empty session.
\<close>

definition sample_table :: monitored_table where
  "sample_table =
     \<lparr>table_id = 1, schema_name = ''public'', table_name = ''orders'',
      fully_qualified_name = ''public.orders'', freshness_sla_minutes = Some 60\<rparr>"

definition mk_column :: "string \<Rightarrow> string \<Rightarrow> bool \<Rightarrow> int \<Rightarrow> column" where
  "mk_column n ty nl ord =
     \<lparr>col_name = n, col_type = Some ty, col_nullable = Some nl, col_ordinal = Some ord\<rparr>"

definition sample_columns :: "column list" where
  "sample_columns =
     [mk_column ''id'' ''INTEGER'' False 1,
      mk_column ''price'' ''FLOAT'' True 2,
      mk_column ''name'' ''VARCHAR'' True 3]"

definition empty_store :: store where
  "empty_store = \<lparr>snapshots = [], anomalies = [], incidents = []\<rparr>"

text \<open>
  For concrete runs, \<^verbatim>\<open>json.dumps(cols, sort_keys=True)\<close> on a column list whose
  strings need no escaping; the examples use this text itself in the place of
  its SHA-256 digest.
\<close>

definition json_int :: "int \<Rightarrow> string" where
  "json_int i = (if i < 0 then CHR ''-'' # decimal (nat (- i)) else decimal (nat i))"

definition json_string :: "string \<Rightarrow> string" where
  "json_string s = [CHR 0x22] @ s @ [CHR 0x22]"

definition json_member :: "string \<Rightarrow> string option \<Rightarrow> string list" where
  "json_member k v = (case v of None \<Rightarrow> [] | Some s \<Rightarrow> [json_string k @ '': '' @ s])"

definition json_column :: "column \<Rightarrow> string" where
  "json_column c =
     ''{'' @ join '', ''
       (json_member ''name'' (Some (json_string (col_name c)))
        @ json_member ''nullable''
            (map_option (\<lambda>b. if b then ''true'' else ''false'') (col_nullable c))
        @ json_member ''ordinal'' (map_option json_int (col_ordinal c))
        @ json_member ''type'' (map_option json_string (col_type c)))
     @ ''}''"

definition canonical_json :: "column list \<Rightarrow> string" where
  "canonical_json cols = ''['' @ join '', '' (map json_column cols) @ '']''"

text \<open>
  The store after a baseline inspection of the fixture table, and two column
  lists that differ from the baseline in a way the diff by name does not see:
  \<^verbatim>\<open>price\<close> no longer nullable, and the same columns in another order.
\<close>

definition baseline_store :: store where
  "baseline_store =
     snd (schema_inspect canonical_json sample_table (Returns sample_columns) 1000 empty_store)"

definition columns_price_not_null :: "column list" where
  "columns_price_not_null =
     [mk_column ''id'' ''INTEGER'' False 1,
      mk_column ''price'' ''FLOAT'' False 2,
      mk_column ''name'' ''VARCHAR'' True 3]"

definition columns_reordered :: "column list" where
  "columns_reordered =
     [mk_column ''id'' ''INTEGER'' False 1,
      mk_column ''name'' ''VARCHAR'' True 3,
      mk_column ''price'' ''FLOAT'' True 2]"

text \<open>
  Two \<^verbatim>\<open>schema_drift\<close> anomalies on the fixture table, already flushed, as in
  \<^verbatim>\<open>test_deduplicates_same_table_and_type\<close>; collaborators that all fail; and a
  store whose only incident was dismissed.
\<close>

definition drift_medium :: anomaly where
  "drift_medium =
     \<lparr>an_id = 1, an_table_id = 1, an_type = ''schema_drift'', an_severity = ''medium'',
      an_detail = SchemaChanges [], detected_at = 10\<rparr>"



definition offline_pipeline :: pipeline where
  "offline_pipeline =
     \<lparr>architect_analyze = (\<lambda>a db. Raises),
      executor_prepare = (\<lambda>a d. Raises),
      report_generate = (\<lambda>i a db. Raises)\<rparr>"

definition dismissed_incident :: incident where
  "dismissed_incident =
     \<lparr>inc_id = 1, inc_anomaly_id = 1, inc_status = ''dismissed'',
      inc_severity = ''medium'', inc_diagnosis = None, inc_blast_radius = None,
      inc_remediation = None, inc_report = None,
      resolved_at = Some 30, resolved_by = None, dismiss_reason = Some ''noise'',
      inc_created_at = 10, inc_updated_at = 10\<rparr>"

definition dismissed_store :: store where
  "dismissed_store =
     \<lparr>snapshots = [], anomalies = [drift_medium], incidents = [dismissed_incident]\<rparr>"

text \<open>
  The trees of two statements of the repository's tests as \<^verbatim>\<open>sqlglot\<close> builds
  them, transcribed by hand:
  \<^verbatim>\<open>INSERT INTO analytics.combined SELECT o.id, c.name FROM orders o JOIN customers c ON o.cust_id = c.id\<close>
  and \<^verbatim>\<open>SELECT id FROM orders\<close>; and a parser that knows these two texts,
  raises \<^verbatim>\<open>TokenError\<close> on \<^verbatim>\<open>SELECT 'abc\<close> (a string literal that is never
  closed, which the tokenizer of \<^verbatim>\<open>sqlglot\<close> rejects before any parsing) and
  raises \<^verbatim>\<open>ParseError\<close> on every other text.
\<close>

definition ident_node :: expression where
  "ident_node = Expression (Other ''Identifier'') [] [] [] []"

definition column_ref :: expression where
  "column_ref = Expression (Other ''Column'') [] [] [] [ident_node, ident_node]"

definition table_ref :: "string \<Rightarrow> string \<Rightarrow> expression list \<Rightarrow> expression" where
  "table_ref db_name n children = Expression Table [] db_name n children"

definition table_alias :: expression where
  "table_alias = Expression (Other ''TableAlias'') [] [] [] [ident_node]"

definition insert_join_sql :: string where
  "insert_join_sql =
     ''INSERT INTO analytics.combined SELECT o.id, c.name ''
     @ ''FROM orders o JOIN customers c ON o.cust_id = c.id''"

definition insert_join_ast :: expression where
  "insert_join_ast =
     Expression Insert [] [] []
       [table_ref ''analytics'' ''combined'' [ident_node, ident_node],
        Expression Select [] [] []
          [column_ref, column_ref,
           Expression (Other ''From'') [] [] []
             [table_ref [] ''orders'' [ident_node, table_alias]],
           Expression (Other ''Join'') [] [] []
             [table_ref [] ''customers'' [ident_node, table_alias],
              Expression (Other ''EQ'') [] [] [] [column_ref, column_ref]]]]"

definition select_only_sql :: string where
  "select_only_sql = ''SELECT id FROM orders''"

definition select_only_ast :: expression where
  "select_only_ast =
     Expression Select [] [] []
       [column_ref,
        Expression (Other ''From'') [] [] [] [table_ref [] ''orders'' [ident_node]]]"

definition unterminated_sql :: string where
  "unterminated_sql = ''SELECT 'abc''"

definition test_parser :: "string \<Rightarrow> string \<Rightarrow> parse_result" where
  "test_parser sql dialect =
     (if sql = insert_join_sql then Parsed [Some insert_join_ast]
      else if sql = select_only_sql then Parsed [Some select_only_ast]
      else if sql = unterminated_sql then OtherError ''TokenError''
      else ParseError)"

text \<open>
  Lineage fixtures: the four edges of \<^verbatim>\<open>sample_lineage_edges\<close> in
  \<^verbatim>\<open>tests/conftest.py\<close>, and a diamond \<open>a \<rightarrow> {b, c} \<rightarrow> d\<close> with different
  confidences on its two ways to \<open>d\<close>, beside an edge \<open>a \<rightarrow> s\<close> last seen more
  than thirty days before the traversal.
\<close>

definition mk_edge :: "string \<Rightarrow> string \<Rightarrow> rat \<Rightarrow> timestamp \<Rightarrow> lineage_edge" where
  "mk_edge s t c seen =
     \<lparr>source_table = s, target_table = t, relationship_type = ''direct'',
      edge_confidence = c, first_seen_at = seen, last_seen_at = seen\<rparr>"

definition sample_lineage_edges :: "lineage_edge list" where
  "sample_lineage_edges =
     [mk_edge ''raw.orders'' ''staging.orders'' 1 0,
      mk_edge ''staging.orders'' ''analytics.orders'' 1 0,
      mk_edge ''analytics.orders'' ''analytics.daily_revenue'' 1 0,
      mk_edge ''analytics.orders'' ''analytics.customer_ltv'' (8 / 10) 0]"

definition diamond_now :: timestamp where
  "diamond_now = 2600000000000"

definition diamond_edges :: "lineage_edge list" where
  "diamond_edges =
     [mk_edge ''a'' ''s'' 1 0,
      mk_edge ''a'' ''b'' (9 / 10) 2599000000000,
      mk_edge ''a'' ''c'' (5 / 10) 2599000000000,
      mk_edge ''c'' ''d'' (3 / 10) 2599000000000,
      mk_edge ''b'' ''d'' (7 / 10) 2599000000000]"

section \<open>Properties\<close>

subsection \<open>Schema drift severity\<close>

lemma severity_step_mono: "severity_rank acc \<le> severity_rank (severity_step acc c)"
  by (simp add: severity_step_def Let_def)

lemma severity_step_covers:
  "severity_rank (change_severity c) \<le> severity_rank (severity_step acc c)"
  by (simp add: severity_step_def Let_def)

lemma fold_rank_mono: "severity_rank acc \<le> severity_rank (foldl severity_step acc cs)"
proof (induction cs arbitrary: acc)
  case Nil
  show ?case by simp
next
  case (Cons c cs)
  have "severity_rank acc \<le> severity_rank (severity_step acc c)"
    by (rule severity_step_mono)
  also have "\<dots> \<le> severity_rank (foldl severity_step (severity_step acc c) cs)"
    by (rule Cons.IH)
  finally show ?case by simp
qed

lemma fold_rank_upper:
  "c \<in> set cs \<Longrightarrow>
     severity_rank (change_severity c) \<le> severity_rank (foldl severity_step acc cs)"
proof (induction cs arbitrary: acc)
  case Nil
  then show ?case by simp
next
  case (Cons d cs)
  show ?case
  proof (cases "c = d")
    case True
    have "severity_rank (change_severity d) \<le> severity_rank (severity_step acc d)"
      by (rule severity_step_covers)
    also have "\<dots> \<le> severity_rank (foldl severity_step (severity_step acc d) cs)"
      by (rule fold_rank_mono)
    finally show ?thesis using True by simp
  next
    case False
    with Cons.prems have "c \<in> set cs" by simp
    from Cons.IH[OF this] show ?thesis by simp
  qed
qed

lemma fold_attained:
  "foldl severity_step acc cs = acc \<or> foldl severity_step acc cs \<in> change_severity ` set cs"
proof (induction cs arbitrary: acc)
  case Nil
  show ?case by simp
next
  case (Cons d cs)
  from Cons.IH[of "severity_step acc d"] show ?case
    by (auto simp: severity_step_def Let_def split: if_splits)
qed

lemma rank_one_is_low: "severity_rank (change_severity c) \<le> 1 \<Longrightarrow> change_severity c = ''low''"
  by (simp add: change_severity_def severity_rank_def Let_def split: if_splits)

lemma rank_four_is_critical: "4 \<le> severity_rank s \<Longrightarrow> s = ''critical''"
  by (simp add: severity_rank_def split: if_splits)

lemma classify_upper:
  "c \<in> set changes \<Longrightarrow>
     severity_rank (change_severity c) \<le> severity_rank (schema_classify_severity changes)"
  unfolding schema_classify_severity_def by (rule fold_rank_upper)

lemma classify_attained:
  assumes "changes \<noteq> []"
  shows "schema_classify_severity changes \<in> change_severity ` set changes"
proof (cases "foldl severity_step ''low'' changes = ''low''")
  case True
  from assms obtain c where c: "c \<in> set changes" by (cases changes) auto
  from fold_rank_upper[OF c, of "''low''"] True
  have "severity_rank (change_severity c) \<le> 1" by (simp add: severity_rank_def)
  then have "change_severity c = ''low''" by (rule rank_one_is_low)
  with c True show ?thesis unfolding schema_classify_severity_def by force
next
  case False
  with fold_attained[of "''low''" changes] show ?thesis
    unfolding schema_classify_severity_def by blast
qed

lemma classify_critical:
  assumes "c \<in> set changes"
    and "change_kind c = ''column_deleted'' \<or> change_kind c = ''type_changed''"
  shows "schema_classify_severity changes = ''critical''"
proof -
  from assms(2) have "change_severity c = ''critical''"
    by (auto simp: change_severity_def Let_def)
  with classify_upper[OF assms(1)]
  have "4 \<le> severity_rank (schema_classify_severity changes)"
    by (simp add: severity_rank_def)
  then show ?thesis by (rule rank_four_is_critical)
qed

text \<open>
  C5. The severity of a schema diff is the worst of the severities of its
  changes: it is at least as high in rank as every change's severity and, for
  a diff that is not empty, it is the severity of one of the changes. The
  severity of one change is critical for \<^verbatim>\<open>column_deleted\<close> and \<^verbatim>\<open>type_changed\<close>,
  low for a nullable \<^verbatim>\<open>column_added\<close>, medium for a non-nullable one and medium
  for any other kind; the ranks are low 1, medium 2, high 3, critical 4. A
  diff with a \<^verbatim>\<open>column_deleted\<close> or a \<^verbatim>\<open>type_changed\<close> change is critical.
\<close>

theorem schema_severity_rollup:
  "(\<forall>c \<in> set changes.
      severity_rank (change_severity c) \<le> severity_rank (schema_classify_severity changes))
   \<and> (changes \<noteq> [] \<longrightarrow> schema_classify_severity changes \<in> change_severity ` set changes)
   \<and> ((\<exists>c \<in> set changes. change_kind c = ''column_deleted'' \<or> change_kind c = ''type_changed'')
        \<longrightarrow> schema_classify_severity changes = ''critical'')
   \<and> (\<forall>c. change_severity c =
          (if change_kind c = ''column_deleted'' \<or> change_kind c = ''type_changed''
             then ''critical''
           else if change_kind c = ''column_added''
             then (if change_nullable c = Some False then ''medium'' else ''low'')
           else ''medium''))
   \<and> severity_rank ''low'' < severity_rank ''medium''
   \<and> severity_rank ''medium'' < severity_rank ''high''
   \<and> severity_rank ''high'' < severity_rank ''critical''"
proof (intro conjI ballI impI allI)
  fix c
  assume "c \<in> set changes"
  then show "severity_rank (change_severity c)
               \<le> severity_rank (schema_classify_severity changes)"
    by (rule classify_upper)
next
  assume "changes \<noteq> []"
  then show "schema_classify_severity changes \<in> change_severity ` set changes"
    by (rule classify_attained)
next
  assume "\<exists>c \<in> set changes.
            change_kind c = ''column_deleted'' \<or> change_kind c = ''type_changed''"
  then show "schema_classify_severity changes = ''critical''"
    using classify_critical by blast
next
  fix c
  show "change_severity c =
          (if change_kind c = ''column_deleted'' \<or> change_kind c = ''type_changed''
             then ''critical''
           else if change_kind c = ''column_added''
             then (if change_nullable c = Some False then ''medium'' else ''low'')
           else ''medium'')"
    by (cases "change_nullable c") (auto simp: change_severity_def Let_def get_nullable_def)
qed (simp_all add: severity_rank_def)

theorem schema_severity_rollup_witness:
  "schema_classify_severity
     [column_added ''note'' (mk_column ''note'' ''TEXT'' False 4),
      column_deleted ''price'' (mk_column ''price'' ''FLOAT'' True 2)] = ''critical''
   \<and> schema_classify_severity [column_added ''note'' (mk_column ''note'' ''TEXT'' False 4)]
       = ''medium''"
proof -
  let ?a = "column_added ''note'' (mk_column ''note'' ''TEXT'' False 4)"
  let ?d = "column_deleted ''price'' (mk_column ''price'' ''FLOAT'' True 2)"
  have k: "\<exists>c \<in> set [?a, ?d].
             change_kind c = ''column_deleted'' \<or> change_kind c = ''type_changed''"
    by (simp add: column_deleted_def)
  have s: "change_severity ?a = ''medium''"
    by (simp add: change_severity_def column_added_def mk_column_def get_nullable_def Let_def)
  from schema_severity_rollup[of "[?a, ?d]"] k
  have 1: "schema_classify_severity [?a, ?d] = ''critical''" by blast
  from schema_severity_rollup[of "[?a]"]
  have "schema_classify_severity [?a] \<in> change_severity ` set [?a]" by blast
  with s have 2: "schema_classify_severity [?a] = ''medium''" by simp
  from 1 2 show ?thesis by simp
qed

subsection \<open>Schema sentinel: snapshots and drift\<close>

lemma latest_by_None: "latest_by key xs = None \<longleftrightarrow> xs = []"
  by (induction xs) (auto split: option.splits)

lemma schema_inspect_snapshots:
  "snapshots (snd (schema_inspect digest t (Returns cols) now db)) =
     snapshots db @ [\<lparr>snap_id = next_id (map snap_id (snapshots db)),
                      snap_table_id = table_id t, snap_columns = cols,
                      snapshot_hash = digest cols, captured_at = now\<rparr>]"
  by (simp add: schema_inspect_def Let_def split: option.splits)

lemma schema_inspect_same_hash:
  assumes "latest_snapshot (table_id t) db = Some prior"
    and "snapshot_hash prior = digest cols"
  shows "fst (schema_inspect digest t (Returns cols) now db) = None"
    and "anomalies (snd (schema_inspect digest t (Returns cols) now db)) = anomalies db"
  using assms by (simp_all add: schema_inspect_def Let_def)

lemma schema_inspect_baseline:
  assumes "latest_snapshot (table_id t) db = None"
  shows "fst (schema_inspect digest t (Returns cols) now db) = None"
    and "anomalies (snd (schema_inspect digest t (Returns cols) now db)) = anomalies db"
    and "latest_snapshot (table_id t) (snd (schema_inspect digest t (Returns cols) now db))
         = Some \<lparr>snap_id = next_id (map snap_id (snapshots db)),
                  snap_table_id = table_id t, snap_columns = cols,
                  snapshot_hash = digest cols, captured_at = now\<rparr>"
    and "length (filter (\<lambda>s. snap_table_id s = table_id t)
           (snapshots (snd (schema_inspect digest t (Returns cols) now db)))) = 1"
  using assms
  by (simp_all add: schema_inspect_def Let_def latest_snapshot_def latest_by_None)

text \<open>
  C1, as the code has it. An inspection whose fetch succeeds always appends one
  new snapshot, also when the latest snapshot of the table has the hash of the
  fetched columns; in that case it returns no anomaly and writes none. So two
  inspections of a table without a snapshot, with the same columns fetched,
  both return no anomaly, write no anomaly, and leave two snapshots of the
  table.
\<close>

theorem schema_inspect_unchanged_schema:
  "(snapshots (snd (schema_inspect digest t (Returns cols) now db)) =
      snapshots db @ [\<lparr>snap_id = next_id (map snap_id (snapshots db)),
                       snap_table_id = table_id t, snap_columns = cols,
                       snapshot_hash = digest cols, captured_at = now\<rparr>])
   \<and> (\<forall>prior. latest_snapshot (table_id t) db = Some prior
                 \<and> snapshot_hash prior = digest cols
        \<longrightarrow> fst (schema_inspect digest t (Returns cols) now db) = None
          \<and> anomalies (snd (schema_inspect digest t (Returns cols) now db)) = anomalies db)
   \<and> (latest_snapshot (table_id t) db = None \<longrightarrow>
        (let first_run = schema_inspect digest t (Returns cols) now db;
             second_run = schema_inspect digest t (Returns cols) now' (snd first_run)
         in fst first_run = None \<and> fst second_run = None
            \<and> anomalies (snd second_run) = anomalies db
            \<and> length (filter (\<lambda>s. snap_table_id s = table_id t)
                        (snapshots (snd second_run))) = 2))"
proof (intro conjI allI impI)
  show "snapshots (snd (schema_inspect digest t (Returns cols) now db)) =
      snapshots db @ [\<lparr>snap_id = next_id (map snap_id (snapshots db)),
                       snap_table_id = table_id t, snap_columns = cols,
                       snapshot_hash = digest cols, captured_at = now\<rparr>]"
    by (rule schema_inspect_snapshots)
next
  fix prior
  assume "latest_snapshot (table_id t) db = Some prior \<and> snapshot_hash prior = digest cols"
  then show "fst (schema_inspect digest t (Returns cols) now db) = None"
    and "anomalies (snd (schema_inspect digest t (Returns cols) now db)) = anomalies db"
    by (simp_all add: schema_inspect_same_hash)
next
  assume base: "latest_snapshot (table_id t) db = None"
  define db1 where "db1 = snd (schema_inspect digest t (Returns cols) now db)"
  define s1 where "s1 = \<lparr>snap_id = next_id (map snap_id (snapshots db)),
                          snap_table_id = table_id t, snap_columns = cols,
                          snapshot_hash = digest cols, captured_at = now\<rparr>"
  have l1: "latest_snapshot (table_id t) db1 = Some s1"
    unfolding db1_def s1_def by (rule schema_inspect_baseline(3)[OF base])
  have h1: "snapshot_hash s1 = digest cols" by (simp add: s1_def)
  have r1: "fst (schema_inspect digest t (Returns cols) now db) = None"
    by (rule schema_inspect_baseline(1)[OF base])
  have a1: "anomalies db1 = anomalies db"
    unfolding db1_def by (rule schema_inspect_baseline(2)[OF base])
  have r2: "fst (schema_inspect digest t (Returns cols) now' db1) = None"
    using l1 h1 by (rule schema_inspect_same_hash(1))
  have a2: "anomalies (snd (schema_inspect digest t (Returns cols) now' db1)) = anomalies db1"
    using l1 h1 by (rule schema_inspect_same_hash(2))
  have c1: "length (filter (\<lambda>s. snap_table_id s = table_id t) (snapshots db1)) = 1"
    unfolding db1_def by (rule schema_inspect_baseline(4)[OF base])
  have c2: "length (filter (\<lambda>s. snap_table_id s = table_id t)
              (snapshots (snd (schema_inspect digest t (Returns cols) now' db1)))) = 2"
    using c1 by (simp add: schema_inspect_snapshots)
  show "let first_run = schema_inspect digest t (Returns cols) now db;
            second_run = schema_inspect digest t (Returns cols) now' (snd first_run)
        in fst first_run = None \<and> fst second_run = None
           \<and> anomalies (snd second_run) = anomalies db
           \<and> length (filter (\<lambda>s. snap_table_id s = table_id t)
                       (snapshots (snd second_run))) = 2"
    using r1 r2 a1 a2 c2 by (simp add: Let_def db1_def)
qed

lemma baseline_latest:
  "latest_snapshot (table_id sample_table) baseline_store =
     Some \<lparr>snap_id = 1, snap_table_id = 1, snap_columns = sample_columns,
            snapshot_hash = canonical_json sample_columns, captured_at = 1000\<rparr>"
  by (simp add: baseline_store_def schema_inspect_def Let_def latest_snapshot_def
        empty_store_def sample_table_def next_id_def)

lemma latest_snapshot_empty_store: "latest_snapshot tid empty_store = None"
  by (simp add: latest_snapshot_def empty_store_def)

theorem schema_inspect_unchanged_schema_witness:
  "(let first_run = schema_inspect canonical_json sample_table (Returns sample_columns)
                      1000 empty_store;
        second_run = schema_inspect canonical_json sample_table (Returns sample_columns)
                       2000 (snd first_run)
    in fst first_run = None \<and> fst second_run = None
       \<and> anomalies (snd second_run) = anomalies empty_store
       \<and> length (filter (\<lambda>s. snap_table_id s = table_id sample_table)
                   (snapshots (snd second_run))) = 2)
   \<and> latest_snapshot (table_id sample_table) empty_store = None
   \<and> map_option snapshot_hash (latest_snapshot (table_id sample_table) baseline_store)
       = Some (canonical_json sample_columns)
   \<and> fst (schema_inspect canonical_json sample_table (Returns sample_columns)
             2000 baseline_store) = None
   \<and> anomalies (snd (schema_inspect canonical_json sample_table (Returns sample_columns)
                        2000 baseline_store)) = anomalies baseline_store"
  using schema_inspect_unchanged_schema
          [of canonical_json sample_table sample_columns 1000 empty_store 2000]
        schema_inspect_unchanged_schema
          [of canonical_json sample_table sample_columns 2000 baseline_store 3000]
        latest_snapshot_empty_store[of "table_id sample_table"]
        baseline_latest
  by simp

text \<open>
  The claim C1 as stated fails: after a baseline inspection the latest
  snapshot has the hash of the fetched columns, and a second inspection with
  the same columns still writes a snapshot, so the table has two, not one.
\<close>

theorem snapshot_idempotence_counterexample:
  "map_option snapshot_hash
     (latest_snapshot 1
        (snd (schema_inspect canonical_json sample_table (Returns sample_columns)
                1000 empty_store)))
     = Some (canonical_json sample_columns)
   \<and> length (snapshots
        (snd (schema_inspect canonical_json sample_table (Returns sample_columns) 2000
           (snd (schema_inspect canonical_json sample_table (Returns sample_columns)
                   1000 empty_store))))) = 2"
  by (simp add: schema_inspect_def Let_def latest_snapshot_def empty_store_def
        sample_table_def)

text \<open>
  C10. When the latest snapshot of the table has another hash than the fetched
  columns and the name-keyed diff of the two column lists is empty, the
  inspection persists and returns a \<^verbatim>\<open>schema_drift\<close> anomaly whose detail is the
  empty change list and whose severity is low; the new snapshot is persisted
  too.
\<close>

theorem schema_inspect_invisible_drift:
  assumes "latest_snapshot (table_id t) db = Some prior"
    and "snapshot_hash prior \<noteq> digest cols"
    and "diff_schemas (snap_columns prior) cols = []"
  shows "\<exists>a. schema_inspect digest t (Returns cols) now db =
               (Some a,
                db\<lparr>snapshots := snapshots db @
                      [\<lparr>snap_id = next_id (map snap_id (snapshots db)),
                        snap_table_id = table_id t, snap_columns = cols,
                        snapshot_hash = digest cols, captured_at = now\<rparr>],
                    anomalies := anomalies db @ [a]\<rparr>)
             \<and> an_type a = ''schema_drift'' \<and> an_table_id a = table_id t
             \<and> an_detail a = SchemaChanges [] \<and> an_severity a = ''low''"
  using assms
  by (simp add: schema_inspect_def Let_def schema_classify_severity_def)

lemma diff_price_not_null: "diff_schemas sample_columns columns_price_not_null = []"
  by code_simp

lemma diff_reordered: "diff_schemas sample_columns columns_reordered = []"
  by code_simp

lemma hash_price_not_null:
  "canonical_json sample_columns \<noteq> canonical_json columns_price_not_null"
  by code_simp

lemma hash_reordered: "canonical_json sample_columns \<noteq> canonical_json columns_reordered"
  by code_simp

theorem schema_inspect_invisible_drift_witness:
  "(\<exists>a. fst (schema_inspect canonical_json sample_table (Returns columns_price_not_null)
               2000 baseline_store) = Some a
        \<and> an_type a = ''schema_drift'' \<and> an_detail a = SchemaChanges []
        \<and> an_severity a = ''low'')
   \<and> (\<exists>a. fst (schema_inspect canonical_json sample_table (Returns columns_reordered)
                 2000 baseline_store) = Some a
        \<and> an_type a = ''schema_drift'' \<and> an_detail a = SchemaChanges []
        \<and> an_severity a = ''low'')"
proof -
  let ?prior = "\<lparr>snap_id = 1, snap_table_id = 1, snap_columns = sample_columns,
                  snapshot_hash = canonical_json sample_columns, captured_at = 1000\<rparr>"
  have h1: "snapshot_hash ?prior \<noteq> canonical_json columns_price_not_null"
    using hash_price_not_null by simp
  have d1: "diff_schemas (snap_columns ?prior) columns_price_not_null = []"
    using diff_price_not_null by simp
  have h2: "snapshot_hash ?prior \<noteq> canonical_json columns_reordered"
    using hash_reordered by simp
  have d2: "diff_schemas (snap_columns ?prior) columns_reordered = []"
    using diff_reordered by simp
  from schema_inspect_invisible_drift[where digest = canonical_json
         and cols = columns_price_not_null and now = 2000, OF baseline_latest h1 d1]
  have 1: "\<exists>a. fst (schema_inspect canonical_json sample_table
                       (Returns columns_price_not_null) 2000 baseline_store) = Some a
        \<and> an_type a = ''schema_drift'' \<and> an_detail a = SchemaChanges []
        \<and> an_severity a = ''low''"
    by force
  from schema_inspect_invisible_drift[where digest = canonical_json
         and cols = columns_reordered and now = 2000, OF baseline_latest h2 d2]
  have 2: "\<exists>a. fst (schema_inspect canonical_json sample_table
                       (Returns columns_reordered) 2000 baseline_store) = Some a
        \<and> an_type a = ''schema_drift'' \<and> an_detail a = SchemaChanges []
        \<and> an_severity a = ''low''"
    by force
  from 1 2 show ?thesis by simp
qed

subsection \<open>Freshness sentinel\<close>

lemma round_half_even_close: "\<bar>of_int (round_half_even y) - y\<bar> \<le> 1 / 2"
proof -
  define f where "f = \<lfloor>y\<rfloor>"
  have "of_int f \<le> y" and "y < of_int f + 1"
    unfolding f_def by linarith+
  then show ?thesis
    unfolding round_half_even_def Let_def f_def[symmetric]
    by (auto simp: abs_if)
qed

lemma pow2_powi: "pow2 e = 2 powi e"
  by (simp add: pow2_def power_int_def inverse_eq_divide power_one_over)

lemma pow2_pos: "0 < pow2 e"
  by (simp add: pow2_powi)

lemma pow2_add: "pow2 (a + b) = pow2 a * pow2 b"
  by (simp add: pow2_powi power_int_add)

lemma pow2_diff: "pow2 (a - b) = pow2 a / pow2 b"
  by (simp add: pow2_powi power_int_diff)

lemma pow2_mono: "a \<le> b \<Longrightarrow> pow2 a \<le> pow2 b"
  by (simp add: pow2_powi power_int_increasing)

lemma pow2_nat: "0 \<le> e \<Longrightarrow> pow2 e = 2 ^ nat e"
  by (simp add: pow2_def)

lemma bitlen_rat_bounds:
  assumes "0 < n"
  shows "pow2 (bitlen n - 1) \<le> of_int n" and "of_int n < pow2 (bitlen n)"
proof -
  from bitlen_bounds[OF assms]
  have lo: "2 ^ nat (bitlen n - 1) \<le> n" and hi: "n < 2 ^ nat (bitlen n)" by simp_all
  have b1: "1 \<le> bitlen n" using assms by (simp add: bitlen_alt_def)
  have "(of_int (2 ^ nat (bitlen n - 1)) :: rat) \<le> of_int n"
    using lo by (simp only: of_int_le_iff)
  then show "pow2 (bitlen n - 1) \<le> of_int n"
    using b1 by (simp add: pow2_nat)
  have "(of_int n :: rat) < of_int (2 ^ nat (bitlen n))"
    using hi by (simp only: of_int_less_iff)
  then show "of_int n < pow2 (bitlen n)"
    using b1 by (simp add: pow2_nat)
qed

text \<open>\<open>exponent_of\<close> is the binary exponent.\<close>

lemma exponent_of_bounds:
  assumes "x \<noteq> 0"
  shows "pow2 (exponent_of x) \<le> \<bar>x\<bar>" and "\<bar>x\<bar> < pow2 (exponent_of x + 1)"
proof -
  obtain p q where pq: "quotient_of \<bar>x\<bar> = (p, q)" by (cases "quotient_of \<bar>x\<bar>")
  have q: "0 < q" using pq by (rule quotient_of_denom_pos)
  have x: "\<bar>x\<bar> = of_int p / of_int q" using pq by (rule quotient_of_div)
  have "0 < \<bar>x\<bar>" using assms by simp
  then have p: "0 < p" using q unfolding x by (simp add: zero_less_divide_iff)
  let ?e = "bitlen p - bitlen q"
  have qr: "(0::rat) < of_int q" using q by simp
  have x_lo: "pow2 (?e - 1) < \<bar>x\<bar>"
  proof -
    have "pow2 (?e - 1) * of_int q < pow2 (?e - 1) * pow2 (bitlen q)"
      using bitlen_rat_bounds(2)[OF q] pow2_pos[of "?e - 1"] by simp
    also have "\<dots> = pow2 (bitlen p - 1)"
      by (simp add: pow2_add[symmetric])
    also have "\<dots> \<le> of_int p" by (rule bitlen_rat_bounds(1)[OF p])
    finally show ?thesis unfolding x using qr by (simp add: pos_less_divide_eq)
  qed
  have x_hi: "\<bar>x\<bar> < pow2 (?e + 1)"
  proof -
    have "of_int p < pow2 (bitlen p)" by (rule bitlen_rat_bounds(2)[OF p])
    also have "\<dots> = pow2 (?e + 1) * pow2 (bitlen q - 1)"
      by (simp add: pow2_add[symmetric])
    also have "\<dots> \<le> pow2 (?e + 1) * of_int q"
      using bitlen_rat_bounds(1)[OF q] pow2_pos[of "?e + 1"] by simp
    finally show ?thesis unfolding x using qr by (simp add: pos_divide_less_eq)
  qed
  have e: "exponent_of x = (if pow2 ?e \<le> \<bar>x\<bar> then ?e else ?e - 1)"
    by (simp add: exponent_of_def pq Let_def)
  show "pow2 (exponent_of x) \<le> \<bar>x\<bar>"
    using x_lo unfolding e by (simp del: of_int_diff)
  show "\<bar>x\<bar> < pow2 (exponent_of x + 1)"
    using x_hi unfolding e by (auto simp del: of_int_diff)
qed

text \<open>
  \<open>double_of x\<close> is within half a unit in the last place of \<open>x\<close>, so within
  \<open>\<bar>x\<bar> / 2 ^ 53\<close> of it in the normal range.
\<close>

lemma double_of_error:
  "\<bar>double_of x - x\<bar> \<le> pow2 (max (exponent_of x) (- 1022) - 52) / 2"
proof (cases "x = 0")
  case True
  then show ?thesis using pow2_pos[of "max (exponent_of x) (- 1022) - 52"]
    by (simp add: double_of_def)
next
  case False
  let ?u = "pow2 (max (exponent_of x) (- 1022) - 52)"
  have u: "0 < ?u" by (rule pow2_pos)
  have "double_of x - x = (of_int (round_half_even (x / ?u)) - x / ?u) * ?u"
    using False u by (simp add: double_of_def Let_def field_simps)
  then have "\<bar>double_of x - x\<bar> = \<bar>of_int (round_half_even (x / ?u)) - x / ?u\<bar> * ?u"
    using u by (simp add: abs_mult)
  also have "\<dots> \<le> 1 / 2 * ?u"
    using round_half_even_close[of "x / ?u"] u by (intro mult_right_mono) simp_all
  finally show ?thesis by simp
qed

lemma double_of_rel_error:
  assumes "pow2 (- 1022) \<le> \<bar>x\<bar>"
  shows "\<bar>double_of x - x\<bar> \<le> \<bar>x\<bar> / 2 ^ 53"
proof -
  have nz: "x \<noteq> 0" using assms pow2_pos[of "- 1022"] by auto
  have "pow2 (- 1022) < pow2 (exponent_of x + 1)"
    using assms exponent_of_bounds(2)[OF nz] by simp
  then have "- 1022 < exponent_of x + 1"
    using pow2_mono[of "exponent_of x + 1" "- 1022"] by (cases "- 1022 < exponent_of x + 1") auto
  then have m: "max (exponent_of x) (- 1022) = exponent_of x" by simp
  have "\<bar>double_of x - x\<bar> \<le> pow2 (exponent_of x - 52) / 2"
    using double_of_error[of x] unfolding m .
  also have "\<dots> = pow2 (exponent_of x) / 2 ^ 53"
    by (simp add: pow2_diff pow2_nat)
  also have "\<dots> \<le> \<bar>x\<bar> / 2 ^ 53"
    using exponent_of_bounds(1)[OF nz] by (simp add: divide_right_mono)
  finally show ?thesis .
qed

text \<open>
  \<^verbatim>\<open>round(x, 1)\<close> is within 1/20 of \<open>x\<close> up to the rounding of the resulting
  tenth to a double. The bound 1/20 alone fails: \<^verbatim>\<open>round(0.75, 1)\<close> is the double
  \<^verbatim>\<open>0.8\<close>, which lies above 4/5.
\<close>

lemma py_round1_close: "\<bar>py_round1 x - x\<bar> \<le> 1 / 20 + (\<bar>x\<bar> + 1 / 20) / 2 ^ 53"
proof -
  define k where "k = round_half_even (x * 10)"
  define d :: rat where "d = of_int k / 10"
  have "\<bar>of_int k - x * 10\<bar> \<le> 1 / 2"
    unfolding k_def by (rule round_half_even_close)
  then have dx: "\<bar>d - x\<bar> \<le> 1 / 20"
    unfolding d_def by (simp add: abs_if field_simps split: if_splits)
  have p: "py_round1 x = double_of d"
    by (simp add: py_round1_def k_def d_def)
  have dd: "\<bar>double_of d - d\<bar> \<le> \<bar>d\<bar> / 2 ^ 53"
  proof (cases "k = 0")
    case True
    then show ?thesis by (simp add: d_def double_of_def)
  next
    case False
    then have "1 \<le> \<bar>k\<bar>" by simp
    then have "(1::rat) \<le> \<bar>of_int k\<bar>" by (metis of_int_1_le_iff of_int_abs)
    then have "1 / 10 \<le> \<bar>d\<bar>" by (simp add: d_def)
    moreover have "pow2 (- 1022) \<le> pow2 (- 4)" by (rule pow2_mono) simp
    moreover have "pow2 (- 4) \<le> 1 / 10" by (simp add: pow2_def)
    ultimately have "pow2 (- 1022) \<le> \<bar>d\<bar>" by linarith
    then show ?thesis by (rule double_of_rel_error)
  qed
  have "\<bar>d\<bar> \<le> \<bar>x\<bar> + 1 / 20" using dx by linarith
  then have "\<bar>d\<bar> / 2 ^ 53 \<le> (\<bar>x\<bar> + 1 / 20) / 2 ^ 53"
    by (simp add: divide_right_mono)
  with dd dx show ?thesis unfolding p by linarith
qed

text \<open>
  Values of the model against those of the interpreter: \<^verbatim>\<open>0.1\<close>, \<^verbatim>\<open>3627 / 60\<close>,
  the conversion of \<open>2 ^ 53 + 1\<close> (a tie, to even), \<^verbatim>\<open>round(0.75, 1)\<close> and
  \<^verbatim>\<open>round(0.25, 1)\<close>.
\<close>

lemma double_of_examples:
  "double_of (1 / 10) = 3602879701896397 / 36028797018963968
   \<and> double_of (3627 / 60) = 4253790585539789 / 70368744177664
   \<and> double_of 9007199254740993 = 9007199254740992
   \<and> py_round1 (3 / 4) = 3602879701896397 / 4503599627370496
   \<and> py_round1 (1 / 4) = 3602879701896397 / 18014398509481984"
  by code_simp

lemma freshness_inspect_fresh:
  assumes "freshness_sla_minutes t = Some sla" and "sla \<noteq> 0"
    and "double_of (total_seconds (now - last_update) / 60) \<le> of_int sla"
  shows "freshness_inspect t (Returns (Some last_update)) now db = (None, db)"
  using assms by (simp add: freshness_inspect_def Let_def)

lemma freshness_inspect_stale:
  assumes "freshness_sla_minutes t = Some sla" and "sla \<noteq> 0"
    and "\<not> double_of (total_seconds (now - last_update) / 60) \<le> of_int sla"
  shows "\<exists>a. freshness_inspect t (Returns (Some last_update)) now db
               = (Some a, db\<lparr>anomalies := anomalies db @ [a]\<rparr>)
           \<and> an_type a = ''freshness_violation''
           \<and> an_table_id a = table_id t
           \<and> an_severity a =
               (if double_of (double_of (total_seconds (now - last_update) / 60)
                              / double_of (of_int sla)) > 5 then ''critical''
                else if double_of (double_of (total_seconds (now - last_update) / 60)
                              / double_of (of_int sla)) > 2 then ''high''
                else ''medium'')
           \<and> an_detail a =
               FreshnessDetail last_update sla
                 (py_round1 (double_of (double_of (total_seconds (now - last_update) / 60)
                                        - double_of (of_int sla))))"
  using assms
  unfolding freshness_inspect_def Let_def freshness_classify_severity_def
  by (simp del: of_int_diff)

text \<open>
  C4, as the code has it. For a table whose freshness SLA is set (and not 0)
  and whose last update is available, with the floats
  \<open>minutes_since = (now - last_update).total_seconds() / 60\<close>,
  \<open>ratio = minutes_since / sla\<close> and \<open>minutes_overdue = minutes_since - sla\<close> as
  Python computes them: the inspection returns no anomaly and leaves the store
  unchanged when \<open>minutes_since \<le> sla\<close>; otherwise it persists and returns a
  \<^verbatim>\<open>freshness_violation\<close> anomaly, critical when \<open>ratio > 5\<close>, high when
  \<open>2 < ratio \<le> 5\<close>, medium otherwise, whose detail holds the last update,
  \<open>sla_minutes = sla\<close> and, under \<^verbatim>\<open>minutes_overdue\<close>, not \<open>minutes_overdue\<close> itself
  but \<^verbatim>\<open>round(minutes_overdue, 1)\<close>: the double of a tenth \<open>k / 10\<close> with \<open>k\<close> the
  integer nearest to \<open>10 * minutes_overdue\<close>, which is within 1/20 of
  \<open>minutes_overdue\<close> up to the rounding of that tenth.
\<close>

theorem freshness_inspect_thresholds:
  assumes "freshness_sla_minutes t = Some sla" and "sla \<noteq> 0"
  shows "let minutes_since = double_of (total_seconds (now - last_update) / 60);
             ratio = double_of (minutes_since / double_of (of_int sla));
             minutes_overdue = double_of (minutes_since - double_of (of_int sla)) in
     (minutes_since \<le> of_int sla \<longrightarrow>
        freshness_inspect t (Returns (Some last_update)) now db = (None, db))
   \<and> (\<not> minutes_since \<le> of_int sla \<longrightarrow>
        (\<exists>a. freshness_inspect t (Returns (Some last_update)) now db
               = (Some a, db\<lparr>anomalies := anomalies db @ [a]\<rparr>)
           \<and> an_type a = ''freshness_violation''
           \<and> an_table_id a = table_id t
           \<and> an_severity a =
               (if ratio > 5 then ''critical''
                else if ratio > 2 then ''high''
                else ''medium'')
           \<and> an_detail a = FreshnessDetail last_update sla (py_round1 minutes_overdue)))
   \<and> (\<exists>k. py_round1 minutes_overdue = double_of (of_int k / 10)
          \<and> \<bar>of_int k - minutes_overdue * 10\<bar> \<le> 1 / 2)
   \<and> \<bar>py_round1 minutes_overdue - minutes_overdue\<bar>
        \<le> 1 / 20 + (\<bar>minutes_overdue\<bar> + 1 / 20) / 2 ^ 53"
  unfolding Let_def
proof (intro conjI impI)
  assume "double_of (total_seconds (now - last_update) / 60) \<le> of_int sla"
  with assms show "freshness_inspect t (Returns (Some last_update)) now db = (None, db)"
    by (rule freshness_inspect_fresh)
next
  assume "\<not> double_of (total_seconds (now - last_update) / 60) \<le> of_int sla"
  with assms show "\<exists>a. freshness_inspect t (Returns (Some last_update)) now db
               = (Some a, db\<lparr>anomalies := anomalies db @ [a]\<rparr>)
           \<and> an_type a = ''freshness_violation''
           \<and> an_table_id a = table_id t
           \<and> an_severity a =
               (if double_of (double_of (total_seconds (now - last_update) / 60)
                              / double_of (of_int sla)) > 5 then ''critical''
                else if double_of (double_of (total_seconds (now - last_update) / 60)
                              / double_of (of_int sla)) > 2 then ''high''
                else ''medium'')
           \<and> an_detail a =
               FreshnessDetail last_update sla
                 (py_round1 (double_of (double_of (total_seconds (now - last_update) / 60)
                                        - double_of (of_int sla))))"
    by (rule freshness_inspect_stale)
next
  let ?m = "double_of (double_of (total_seconds (now - last_update) / 60)
              - double_of (of_int sla))"
  have "py_round1 ?m = double_of (of_int (round_half_even (?m * 10)) / 10)"
    by (simp only: py_round1_def)
  moreover have "\<bar>of_int (round_half_even (?m * 10)) - ?m * 10\<bar> \<le> 1 / 2"
    by (rule round_half_even_close)
  ultimately show "\<exists>k. py_round1 ?m = double_of (of_int k / 10)
          \<and> \<bar>of_int k - ?m * 10\<bar> \<le> 1 / 2"
    by blast
next
  show "\<bar>py_round1 (double_of (double_of (total_seconds (now - last_update) / 60)
                       - double_of (of_int sla)))
          - double_of (double_of (total_seconds (now - last_update) / 60)
                       - double_of (of_int sla))\<bar>
        \<le> 1 / 20 + (\<bar>double_of (double_of (total_seconds (now - last_update) / 60)
                       - double_of (of_int sla))\<bar> + 1 / 20) / 2 ^ 53"
    by (rule py_round1_close)
qed

lemma sample_table_sla: "freshness_sla_minutes sample_table = Some 60"
  by (simp add: sample_table_def)

lemma minutes_since_30: "double_of (total_seconds (1800000000 - 0) / 60) = 30"
  by code_simp

lemma minutes_since_90: "double_of (total_seconds (5400000000 - 0) / 60) = 90"
  by code_simp

lemma double_of_60: "double_of (of_int 60) = 60"
  by code_simp

lemma ratio_90: "double_of (90 / 60) = 3 / 2"
  by code_simp

lemma minutes_overdue_90: "double_of (90 - 60) = 30"
  by code_simp

lemma py_round1_30: "py_round1 30 = 30"
  by code_simp

text \<open>
  The spec's scenario: SLA 60, last update 90 minutes ago gives a medium
  \<^verbatim>\<open>freshness_violation\<close> with \<^verbatim>\<open>minutes_overdue\<close> 30.0; 30 minutes ago gives nothing.
\<close>

theorem freshness_inspect_thresholds_witness:
  "freshness_inspect sample_table (Returns (Some 0)) 1800000000 empty_store
     = (None, empty_store)
   \<and> (\<exists>a. freshness_inspect sample_table (Returns (Some 0)) 5400000000 empty_store
             = (Some a, empty_store\<lparr>anomalies := anomalies empty_store @ [a]\<rparr>)
         \<and> an_type a = ''freshness_violation''
         \<and> an_table_id a = table_id sample_table
         \<and> an_severity a = ''medium''
         \<and> an_detail a = FreshnessDetail 0 60 30)"
proof -
  have n: "(60::int) \<noteq> 0" by simp
  from freshness_inspect_thresholds[OF sample_table_sla n, of 1800000000 0 empty_store]
  have 1: "freshness_inspect sample_table (Returns (Some 0)) 1800000000 empty_store
             = (None, empty_store)"
    unfolding Let_def minutes_since_30 by simp
  from freshness_inspect_thresholds[OF sample_table_sla n, of 5400000000 0 empty_store]
  have 2: "\<exists>a. freshness_inspect sample_table (Returns (Some 0)) 5400000000 empty_store
             = (Some a, empty_store\<lparr>anomalies := anomalies empty_store @ [a]\<rparr>)
         \<and> an_type a = ''freshness_violation''
         \<and> an_table_id a = table_id sample_table
         \<and> an_severity a = ''medium''
         \<and> an_detail a = FreshnessDetail 0 60 30"
    unfolding Let_def minutes_since_90 double_of_60 ratio_90 minutes_overdue_90 py_round1_30
    by simp
  from 1 2 show ?thesis by simp
qed

text \<open>
  The claim C4 as stated fails on \<^verbatim>\<open>minutes_overdue\<close>. With SLA 60 and a last
  update 3627 seconds ago, \<^verbatim>\<open>minutes_since - sla\<close> is the float
  \<^verbatim>\<open>0.45000000000000284\<close> while the detail holds \<^verbatim>\<open>0.5\<close>; with a last update 5402.4
  seconds ago it is \<^verbatim>\<open>30.039999999999992\<close> while the detail holds \<^verbatim>\<open>30.0\<close>.
\<close>

theorem freshness_overdue_counterexample:
  "map_option an_detail
     (fst (freshness_inspect sample_table (Returns (Some 0)) 3627000000 empty_store))
     = Some (FreshnessDetail 0 60 (1 / 2))
   \<and> double_of (double_of (total_seconds (3627000000 - 0) / 60) - double_of (of_int 60))
       = 31665934879949 / 70368744177664
   \<and> (31665934879949 / 70368744177664 :: rat) \<noteq> 1 / 2
   \<and> map_option an_detail
     (fst (freshness_inspect sample_table (Returns (Some 0)) 5402400000 empty_store))
     = Some (FreshnessDetail 0 60 30)
   \<and> double_of (double_of (total_seconds (5402400000 - 0) / 60) - double_of (of_int 60))
       = 1056938537548513 / 35184372088832
   \<and> (1056938537548513 / 35184372088832 :: rat) \<noteq> 30"
proof -
  have "map_option an_detail
     (fst (freshness_inspect sample_table (Returns (Some 0)) 3627000000 empty_store))
     = Some (FreshnessDetail 0 60 (1 / 2))"
    by code_simp
  moreover have
    "double_of (double_of (total_seconds (3627000000 - 0) / 60) - double_of (of_int 60))
       = 31665934879949 / 70368744177664"
    by code_simp
  moreover have "(31665934879949 / 70368744177664 :: rat) \<noteq> 1 / 2" by simp
  moreover have "map_option an_detail
     (fst (freshness_inspect sample_table (Returns (Some 0)) 5402400000 empty_store))
     = Some (FreshnessDetail 0 60 30)"
    by code_simp
  moreover have
    "double_of (double_of (total_seconds (5402400000 - 0) / 60) - double_of (of_int 60))
       = 1056938537548513 / 35184372088832"
    by code_simp
  moreover have "(1056938537548513 / 35184372088832 :: rat) \<noteq> 30" by simp
  ultimately show ?thesis by simp
qed

subsection \<open>Orchestrator: dedupe and merge\<close>

lemma fold_max_ge_init: "(a::int) \<le> fold max xs a"
  by (induction xs arbitrary: a) (auto intro: order_trans[OF max.cobounded2])

lemma fold_max_ge_elem: "x \<in> set xs \<Longrightarrow> (x::int) \<le> fold max xs a"
proof (induction xs arbitrary: a)
  case Nil
  then show ?case by simp
next
  case (Cons y ys)
  show ?case
  proof (cases "x = y")
    case True
    have "y \<le> max y a" by simp
    also have "\<dots> \<le> fold max ys (max y a)" by (rule fold_max_ge_init)
    finally show ?thesis using True by simp
  next
    case False
    with Cons.prems have "x \<in> set ys" by simp
    from Cons.IH[OF this] show ?thesis by simp
  qed
qed

lemma next_id_fresh: "next_id ids \<notin> set ids"
proof
  assume "next_id ids \<in> set ids"
  from fold_max_ge_elem[OF this, of 0] show False by (simp add: next_id_def)
qed

lemma latest_by_mem: "latest_by key xs = Some x \<Longrightarrow> x \<in> set xs"
  by (induction xs arbitrary: x) (auto split: option.splits if_splits)

lemma find_open_incident_mem:
  assumes "find_open_incident tid ty db = Some e"
  shows "e \<in> set (incidents db)" and "open_match tid ty db e"
proof -
  from assms have "e \<in> set (open_incidents_for tid ty db)"
    unfolding find_open_incident_def by (rule latest_by_mem)
  then show "e \<in> set (incidents db)" and "open_match tid ty db e"
    by (simp_all add: open_incidents_for_def)
qed







lemma merge_anomaly_fields:
  "inc_id (fst (merge_anomaly e a now db)) = inc_id e"
  "inc_anomaly_id (fst (merge_anomaly e a now db)) = inc_anomaly_id e"
  "inc_status (fst (merge_anomaly e a now db)) = inc_status e"
  "inc_severity (fst (merge_anomaly e a now db)) =
     (if severity_rank (an_severity a) > severity_rank (inc_severity e)
      then an_severity a else inc_severity e)"
  "snd (merge_anomaly e a now db) = update_incident (fst (merge_anomaly e a now db)) db"
  by (simp_all add: merge_anomaly_def Let_def)

text \<open>The incident the create path of \<^verbatim>\<open>handle_anomaly\<close> ends with.\<close>

lemma handle_anomaly_create:
  assumes "find_open_incident (an_table_id a) (an_type a) db = None"
  shows "\<exists>i. handle_anomaly p a now db = (i, db\<lparr>incidents := incidents db @ [i]\<rparr>)
            \<and> inc_id i = next_id (map inc_id (incidents db))
            \<and> inc_anomaly_id i = an_id a
            \<and> inc_status i = ''pending_review''"
proof -
  have fresh: "inc_id j \<noteq> next_id (map inc_id (incidents db))"
    if "j \<in> set (incidents db)" for j
    using that next_id_fresh[of "map inc_id (incidents db)"] by force
  have keep: "map (\<lambda>j. if inc_id j = next_id (map inc_id (incidents db)) then i else j)
                (incidents db) = incidents db" for i
    by (rule map_idI) (simp add: fresh)
  show ?thesis
    unfolding handle_anomaly_def assms option.case Let_def update_incident_def
    by (cases "architect_analyze p a (db\<lparr>incidents := incidents db @
          [\<lparr>inc_id = next_id (map inc_id (incidents db)),
            inc_anomaly_id = an_id a, inc_status = ''investigating'',
            inc_severity = an_severity a, inc_diagnosis = None, inc_blast_radius = None,
            inc_remediation = None, inc_report = None, resolved_at = None,
            resolved_by = None, dismiss_reason = None,
            inc_created_at = now, inc_updated_at = now\<rparr>]\<rparr>)")
       (simp_all add: keep split: outcome.split)
qed

lemma handle_anomaly_found:
  assumes "find_open_incident (an_table_id a) (an_type a) db = Some e"
  shows "handle_anomaly p a now db
           = (fst (merge_anomaly e a now db),
              update_incident (fst (merge_anomaly e a now db)) db)"
  using assms by (simp add: handle_anomaly_def merge_anomaly_fields(5)[symmetric])










subsection \<open>Incident statuses\<close>

lemma find_update_same:
  "find (\<lambda>i. inc_id i = k) (map (\<lambda>j. if inc_id j = k then i' else j) xs)
     = (if inc_id i' = k then map_option (\<lambda>_. i') (find (\<lambda>i. inc_id i = k) xs) else None)"
  by (induction xs) auto

lemma find_update_other:
  "inc_id i' \<noteq> k \<Longrightarrow>
     find (\<lambda>i. inc_id i = k) (map (\<lambda>j. if inc_id j = inc_id i' then i' else j) xs)
       = find (\<lambda>i. inc_id i = k) xs"
  by (induction xs) auto

lemma get_incident_update_same:
  "get_incident (inc_id i') (update_incident i' db)
     = map_option (\<lambda>_. i') (get_incident (inc_id i') db)"
  by (simp add: get_incident_def update_incident_def find_update_same)

lemma get_incident_update_other:
  "inc_id i' \<noteq> k \<Longrightarrow> get_incident k (update_incident i' db) = get_incident k db"
  by (simp add: get_incident_def update_incident_def find_update_other)

lemma get_incident_id: "get_incident k db = Some i \<Longrightarrow> inc_id i = k \<and> i \<in> set (incidents db)"
  unfolding get_incident_def by (auto simp: find_Some_iff)

lemma find_append_found: "find P xs = Some x \<Longrightarrow> find P (xs @ ys) = Some x"
  by (induction xs) auto

lemma get_incident_append:
  "get_incident k db = Some i \<Longrightarrow>
     get_incident k (db\<lparr>incidents := incidents db @ [j]\<rparr>) = Some i"
  unfolding get_incident_def by (simp add: find_append_found)

lemma approve_incident_found:
  "get_incident k db = Some inc \<Longrightarrow>
     approve_incident k now db =
       Inr (inc\<lparr>inc_status := ''resolved'', resolved_at := Some now,
                 resolved_by := Some ''api_user''\<rparr>,
            update_incident (inc\<lparr>inc_status := ''resolved'', resolved_at := Some now,
                                   resolved_by := Some ''api_user''\<rparr>) db)"
  by (simp add: approve_incident_def Let_def)

lemma dismiss_incident_found:
  "get_incident k db = Some inc \<Longrightarrow>
     dismiss_incident k reason now db =
       Inr (inc\<lparr>inc_status := ''dismissed'', dismiss_reason := Some reason,
                 resolved_at := Some now\<rparr>,
            update_incident (inc\<lparr>inc_status := ''dismissed'', dismiss_reason := Some reason,
                                   resolved_at := Some now\<rparr>) db)"
  by (simp add: dismiss_incident_def Let_def)

lemma terminal_not_open:
  "inc_status i \<in> set terminal_statuses \<Longrightarrow> inc_status i \<notin> set open_statuses"
  by (auto simp: terminal_statuses_def open_statuses_def)

lemma terminal_after_approve:
  assumes "get_incident k db = Some i" and "inc_status i \<in> set terminal_statuses"
  shows "\<exists>j. get_incident k (apply_operation p (Approve k') now db) = Some j
             \<and> inc_status j \<in> set terminal_statuses"
proof (cases "get_incident k' db")
  case None
  with assms show ?thesis by (simp add: approve_incident_def)
next
  case (Some inc)
  let ?inc' = "inc\<lparr>inc_status := ''resolved'', resolved_at := Some now,
                    resolved_by := Some ''api_user''\<rparr>"
  have h: "apply_operation p (Approve k') now db = update_incident ?inc' db"
    by (simp add: approve_incident_found[OF Some])
  from get_incident_id[OF Some] have id: "inc_id ?inc' = k'" by simp
  show ?thesis
  proof (cases "k = k'")
    case True
    with assms(1) id get_incident_update_same[of ?inc' db]
    have "get_incident k (update_incident ?inc' db) = Some ?inc'" by simp
    then show ?thesis unfolding h by (simp add: terminal_statuses_def)
  next
    case False
    with id have "inc_id ?inc' \<noteq> k" by simp
    from get_incident_update_other[OF this, of db] assms show ?thesis unfolding h by simp
  qed
qed

lemma terminal_after_dismiss:
  assumes "get_incident k db = Some i" and "inc_status i \<in> set terminal_statuses"
  shows "\<exists>j. get_incident k (apply_operation p (Dismiss k' reason) now db) = Some j
             \<and> inc_status j \<in> set terminal_statuses"
proof (cases "get_incident k' db")
  case None
  with assms show ?thesis by (simp add: dismiss_incident_def)
next
  case (Some inc)
  let ?inc' = "inc\<lparr>inc_status := ''dismissed'', dismiss_reason := Some reason,
                    resolved_at := Some now\<rparr>"
  have h: "apply_operation p (Dismiss k' reason) now db = update_incident ?inc' db"
    by (simp add: dismiss_incident_found[OF Some])
  from get_incident_id[OF Some] have id: "inc_id ?inc' = k'" by simp
  show ?thesis
  proof (cases "k = k'")
    case True
    with assms(1) id get_incident_update_same[of ?inc' db]
    have "get_incident k (update_incident ?inc' db) = Some ?inc'" by simp
    then show ?thesis unfolding h by (simp add: terminal_statuses_def)
  next
    case False
    with id have "inc_id ?inc' \<noteq> k" by simp
    from get_incident_update_other[OF this, of db] assms show ?thesis unfolding h by simp
  qed
qed

lemma terminal_after_handle:
  assumes "get_incident k db = Some i" and "inc_status i \<in> set terminal_statuses"
    and inc: "distinct (map inc_id (incidents db))"
  shows "get_incident k (apply_operation p (HandleAnomaly a) now db) = Some i"
proof (cases "find_open_incident (an_table_id a) (an_type a) db")
  case (Some e)
  let ?i = "fst (merge_anomaly e a now db)"
  from find_open_incident_mem[OF Some]
  have e: "e \<in> set (incidents db)" and "open_match (an_table_id a) (an_type a) db e"
    by simp_all
  then have "inc_status e \<in> set open_statuses" by (simp add: open_match_def)
  with terminal_not_open[OF assms(2)] have "e \<noteq> i" by auto
  from get_incident_id[OF assms(1)] have i: "inc_id i = k" "i \<in> set (incidents db)"
    by simp_all
  from inc have "inj_on inc_id (set (incidents db))" by (simp add: distinct_map)
  from inj_onD[OF this _ e i(2)] \<open>e \<noteq> i\<close> i(1) have "inc_id e \<noteq> k" by auto
  then have "inc_id ?i \<noteq> k" by (simp add: merge_anomaly_fields(1))
  from get_incident_update_other[OF this, of db] assms(1)
  show ?thesis by (simp add: handle_anomaly_found[OF Some])
next
  case None
  from handle_anomaly_create[OF None, of p now] obtain j where
    "handle_anomaly p a now db = (j, db\<lparr>incidents := incidents db @ [j]\<rparr>)" by blast
  with get_incident_append[OF assms(1), of j] show ?thesis by simp
qed

text \<open>
  C2, as the code has it. The approve and dismiss endpoints carry no check of
  the current status: on any existing incident, approve sets the status to
  resolved with \<^verbatim>\<open>resolved_at\<close> and \<^verbatim>\<open>resolved_by\<close>, dismiss sets it to dismissed
  with the reason, and a missing incident is answered with 404. What holds of
  the terminal statuses: under every operation (approve, dismiss or the
  orchestrator handling an anomaly, on a store with unique incident ids) an
  incident that is resolved or dismissed is afterwards still resolved or
  dismissed, so it never returns to the open set.
\<close>

theorem incident_terminal_closed:
  "(get_incident k db = None \<longrightarrow>
      approve_incident k now db = Inl NotFound
      \<and> dismiss_incident k reason now db = Inl NotFound)
   \<and> (\<forall>inc. get_incident k db = Some inc \<longrightarrow>
        approve_incident k now db =
          Inr (inc\<lparr>inc_status := ''resolved'', resolved_at := Some now,
                    resolved_by := Some ''api_user''\<rparr>,
               update_incident (inc\<lparr>inc_status := ''resolved'', resolved_at := Some now,
                                      resolved_by := Some ''api_user''\<rparr>) db)
        \<and> dismiss_incident k reason now db =
          Inr (inc\<lparr>inc_status := ''dismissed'', dismiss_reason := Some reason,
                    resolved_at := Some now\<rparr>,
               update_incident (inc\<lparr>inc_status := ''dismissed'',
                                      dismiss_reason := Some reason,
                                      resolved_at := Some now\<rparr>) db))
   \<and> (\<forall>i. distinct (map inc_id (incidents db)) \<and> get_incident k db = Some i
            \<and> inc_status i \<in> set terminal_statuses \<longrightarrow>
        (\<exists>j. get_incident k (apply_operation p operation now db) = Some j
              \<and> inc_status j \<in> set terminal_statuses))
   \<and> terminal_statuses = [''resolved'', ''dismissed'']"
proof (intro conjI allI impI)
  fix i
  assume a: "distinct (map inc_id (incidents db)) \<and> get_incident k db = Some i
            \<and> inc_status i \<in> set terminal_statuses"
  show "\<exists>j. get_incident k (apply_operation p operation now db) = Some j
              \<and> inc_status j \<in> set terminal_statuses"
  proof (cases operation)
    case (Approve k')
    with a terminal_after_approve[of k db i p k' now] show ?thesis by simp
  next
    case (Dismiss k' r)
    with a terminal_after_dismiss[of k db i p k' r now] show ?thesis by simp
  next
    case (HandleAnomaly an)
    with a terminal_after_handle[of k db i p an now] show ?thesis by simp
  qed
qed (simp_all add: approve_incident_def dismiss_incident_def Let_def terminal_statuses_def)

lemma dismissed_store_lookup: "get_incident 1 dismissed_store = Some dismissed_incident"
  by (simp add: get_incident_def dismissed_store_def dismissed_incident_def)

theorem incident_terminal_closed_witness:
  "approve_incident 2 50 dismissed_store = Inl NotFound
   \<and> dismiss_incident 2 ''dup'' 50 dismissed_store = Inl NotFound
   \<and> map_sum id (inc_status \<circ> fst) (approve_incident 1 50 dismissed_store)
       = Inr ''resolved''
   \<and> map_sum id (inc_status \<circ> fst) (dismiss_incident 1 ''dup'' 50 dismissed_store)
       = Inr ''dismissed''
   \<and> (\<exists>j. get_incident 1
             (apply_operation offline_pipeline (HandleAnomaly drift_medium) 50 dismissed_store)
             = Some j
          \<and> inc_status j \<in> set terminal_statuses)"
proof -
  have none: "get_incident 2 dismissed_store = None"
    by (simp add: get_incident_def dismissed_store_def dismissed_incident_def)
  have d: "distinct (map inc_id (incidents dismissed_store))"
    by (simp add: dismissed_store_def)
  have t: "inc_status dismissed_incident \<in> set terminal_statuses"
    by (simp add: dismissed_incident_def terminal_statuses_def)
  from incident_terminal_closed[of 2 dismissed_store 50 "''dup''"] none
  have 1: "approve_incident 2 50 dismissed_store = Inl NotFound
           \<and> dismiss_incident 2 ''dup'' 50 dismissed_store = Inl NotFound"
    by simp
  from incident_terminal_closed[of 1 dismissed_store 50 "''dup''"] dismissed_store_lookup
  have 2: "map_sum id (inc_status \<circ> fst) (approve_incident 1 50 dismissed_store)
             = Inr ''resolved''
           \<and> map_sum id (inc_status \<circ> fst) (dismiss_incident 1 ''dup'' 50 dismissed_store)
             = Inr ''dismissed''"
    by simp
  from incident_terminal_closed[of 1 dismissed_store 50 "''dup''" offline_pipeline
         "HandleAnomaly drift_medium"] dismissed_store_lookup d t
  have 3: "\<exists>j. get_incident 1
             (apply_operation offline_pipeline (HandleAnomaly drift_medium) 50 dismissed_store)
             = Some j
          \<and> inc_status j \<in> set terminal_statuses"
    by blast
  from 1 2 3 show ?thesis by simp
qed

text \<open>
  The claim C2 as stated fails: the only incident of the store is dismissed,
  and approving it answers with the incident resolved.
\<close>

theorem terminal_status_counterexample:
  "map_option inc_status (get_incident 1 dismissed_store) = Some ''dismissed''
   \<and> map_sum id (inc_status \<circ> fst) (approve_incident 1 50 dismissed_store)
       = Inr ''resolved''
   \<and> map_option inc_status
        (get_incident 1 (apply_operation offline_pipeline (Approve 1) 50 dismissed_store))
       = Some ''resolved''"
  by (simp add: get_incident_def dismissed_store_def dismissed_incident_def
        approve_incident_def update_incident_def Let_def)

subsection \<open>Report generator\<close>

text \<open>
  C9. A report generated without a diagnosis has the root cause
  \<^verbatim>\<open>{explanation: "Analysis unavailable", source_table: table.fqn, confidence: 0}\<close>
  and the blast radius \<^verbatim>\<open>{total_affected: 0, affected_tables: []}\<close>; with a
  diagnosis, \<^verbatim>\<open>total_affected\<close> is the length of the diagnosis's blast radius,
  which is the list of affected tables.
\<close>

theorem report_defaults_without_diagnosis:
  "rep_root_cause (generate inc a table None rem now) =
     \<lparr>explanation = ''Analysis unavailable'',
      source_table_name = fully_qualified_name table,
      rc_confidence = 0\<rparr>
   \<and> rep_blast_radius (generate inc a table None rem now) =
       \<lparr>total_affected = 0, affected_tables = []\<rparr>
   \<and> total_affected (rep_blast_radius (generate inc a table (Some d) rem now))
       = length (blast_radius d)
   \<and> affected_tables (rep_blast_radius (generate inc a table (Some d) rem now))
       = blast_radius d
   \<and> build_root_cause None tname =
       \<lparr>explanation = ''Analysis unavailable'', source_table_name = tname,
        rc_confidence = 0\<rparr>
   \<and> build_blast_radius None = \<lparr>total_affected = 0, affected_tables = []\<rparr>
   \<and> total_affected (build_blast_radius (Some d)) = length (blast_radius d)"
  by (simp add: generate_def Let_def build_root_cause_def build_blast_radius_def)

subsection \<open>SQL parser\<close>

lemma sources_loop_names:
  "set (map fst (sources_loop ts target seen))
     = (\<lambda>(t, d). sql_table_name t) ` set ts - {target} - seen"
proof (induction ts arbitrary: seen)
  case Nil
  show ?case by simp
next
  case (Cons td ts)
  obtain t d where td: "td = (t, d)" by (cases td)
  show ?case
    unfolding td using Cons.IH[of seen] Cons.IH[of "insert (sql_table_name t) seen"]
    by (auto simp: Let_def)
qed

lemma sources_loop_distinct: "distinct (map fst (sources_loop ts target seen))"
proof (induction ts arbitrary: seen)
  case Nil
  show ?case by simp
next
  case (Cons td ts)
  obtain t d where td: "td = (t, d)" by (cases td)
  have "sql_table_name t \<notin> set (map fst (sources_loop ts target
                                            (insert (sql_table_name t) seen)))"
    unfolding sources_loop_names by simp
  with Cons.IH show ?case unfolding td by (simp add: Let_def)
qed

lemma sources_loop_confidence:
  "(n, c) \<in> set (sources_loop ts target seen) \<Longrightarrow>
     \<exists>(t, d) \<in> set ts. n = sql_table_name t \<and> c = compute_confidence d"
proof (induction ts arbitrary: seen)
  case Nil
  then show ?case by simp
next
  case (Cons td ts)
  obtain t d where td: "td = (t, d)" by (cases td)
  from Cons.prems Cons.IH show ?case
    unfolding td by (fastforce simp: Let_def split: if_splits)
qed

lemma extract_target_write:
  "node_kind st = Insert \<or> node_kind st = Create \<or> node_kind st = Merge \<Longrightarrow>
     extract_target st = map_option sql_table_name (find_table st)"
  by (auto simp: extract_target_def)

lemma extract_target_other:
  "node_kind st \<noteq> Insert \<Longrightarrow> node_kind st \<noteq> Create \<Longrightarrow> node_kind st \<noteq> Merge \<Longrightarrow>
     extract_target st = None"
  by (simp add: extract_target_def)

text \<open>
  C6, as the code has it. \<^verbatim>\<open>extract_lineage_edges\<close> returns the empty list when the
  parser raises \<^verbatim>\<open>ParseError\<close>, but an exception of any other class raised by
  the parser (\<^verbatim>\<open>TokenError\<close>, \<^verbatim>\<open>ValueError\<close>) leaves the function: it does raise.
  When every parsed statement is \<^verbatim>\<open>None\<close> or has no write target, it returns the
  empty list; a statement that is no \<^verbatim>\<open>Insert\<close>, \<^verbatim>\<open>Create\<close> or \<^verbatim>\<open>Merge\<close>, in
  particular a \<^verbatim>\<open>Select\<close>, has no write target, and neither has a write
  statement without a \<^verbatim>\<open>Table\<close> node.
\<close>

theorem extract_edges_empty:
  "(parse sql dialect = ParseError \<longrightarrow> extract_lineage_edges parse sql dialect = Inr [])
   \<and> (\<forall>cls. parse sql dialect = OtherError cls
        \<longrightarrow> extract_lineage_edges parse sql dialect = Inl cls)
   \<and> (\<forall>statements. parse sql dialect = Parsed statements
          \<and> (\<forall>s \<in> set statements. s = None \<or> (\<exists>st. s = Some st \<and> extract_target st = None))
        \<longrightarrow> extract_lineage_edges parse sql dialect = Inr [])
   \<and> (\<forall>st. node_kind st \<noteq> Insert \<and> node_kind st \<noteq> Create \<and> node_kind st \<noteq> Merge
        \<longrightarrow> extract_target st = None)
   \<and> (\<forall>st. node_kind st = Select \<longrightarrow> extract_target st = None)
   \<and> (\<forall>st. find_table st = None \<longrightarrow> extract_target st = None)"
proof (intro conjI allI impI)
  assume "parse sql dialect = ParseError"
  then show "extract_lineage_edges parse sql dialect = Inr []"
    by (simp add: extract_lineage_edges_def)
next
  fix cls :: string
  assume "parse sql dialect = OtherError cls"
  then show "extract_lineage_edges parse sql dialect = Inl cls"
    by (simp add: extract_lineage_edges_def)
next
  fix statements
  assume a: "parse sql dialect = Parsed statements
          \<and> (\<forall>s \<in> set statements. s = None \<or> (\<exists>st. s = Some st \<and> extract_target st = None))"
  then have "\<forall>s \<in> set statements. statement_edges s = []"
    by (auto simp: statement_edges_def)
  with a show "extract_lineage_edges parse sql dialect = Inr []"
    by (simp add: extract_lineage_edges_def)
next
  fix st
  assume "node_kind st \<noteq> Insert \<and> node_kind st \<noteq> Create \<and> node_kind st \<noteq> Merge"
  then show "extract_target st = None" by (simp add: extract_target_def)
next
  fix st
  assume "node_kind st = Select"
  then show "extract_target st = None" by (simp add: extract_target_def)
next
  fix st
  assume "find_table st = None"
  then show "extract_target st = None" by (simp add: extract_target_def)
qed

text \<open>
  The text of the repository's test \<^verbatim>\<open>test_unparseable_sql_returns_empty\<close> gives
  the empty list and so does the \<^verbatim>\<open>SELECT\<close>-only statement, but on
  \<^verbatim>\<open>SELECT 'abc\<close> the \<^verbatim>\<open>TokenError\<close> of the parser comes out of
  \<^verbatim>\<open>extract_lineage_edges\<close>.
\<close>

theorem extract_edges_empty_witness:
  "extract_lineage_edges test_parser ''THIS IS NOT VALID SQL %%% !!!'' ''postgres'' = Inr []
   \<and> extract_lineage_edges test_parser unterminated_sql ''postgres'' = Inl ''TokenError''
   \<and> extract_lineage_edges test_parser select_only_sql ''postgres'' = Inr []
   \<and> extract_target select_only_ast = None"
proof -
  have p1: "test_parser ''THIS IS NOT VALID SQL %%% !!!'' ''postgres'' = ParseError"
    by (simp add: test_parser_def insert_join_sql_def select_only_sql_def
          unterminated_sql_def)
  have p2: "test_parser select_only_sql ''postgres'' = Parsed [Some select_only_ast]"
    by (simp add: test_parser_def insert_join_sql_def select_only_sql_def)
  have p3: "test_parser unterminated_sql ''postgres'' = OtherError ''TokenError''"
    by (simp add: test_parser_def insert_join_sql_def select_only_sql_def
          unterminated_sql_def)
  have k: "node_kind select_only_ast = Select" by (simp add: select_only_ast_def)
  from extract_edges_empty[of test_parser "''THIS IS NOT VALID SQL %%% !!!''" "''postgres''"] p1
  have 1: "extract_lineage_edges test_parser ''THIS IS NOT VALID SQL %%% !!!'' ''postgres''
             = Inr []"
    by blast
  from extract_edges_empty[of test_parser unterminated_sql "''postgres''"] p3
  have 4: "extract_lineage_edges test_parser unterminated_sql ''postgres''
             = Inl ''TokenError''"
    by blast
  from extract_edges_empty[of test_parser select_only_sql "''postgres''"] k
  have 3: "extract_target select_only_ast = None" by blast
  from extract_edges_empty[of test_parser select_only_sql "''postgres''"] p2 3
  have 2: "extract_lineage_edges test_parser select_only_sql ''postgres'' = Inr []"
    by simp
  from 1 2 3 4 show ?thesis by simp
qed

text \<open>
  C7. For a write statement (\<^verbatim>\<open>Insert\<close>, \<^verbatim>\<open>Create\<close> or \<^verbatim>\<open>Merge\<close>) whose first table is
  the target and whose table references all sit directly under the statement
  (no \<^verbatim>\<open>Subquery\<close> between), \<^verbatim>\<open>extract_lineage_edges\<close> yields one edge for each
  distinct table name other than the target: the sources are distinct, they
  are exactly those names, and every edge goes to the target with confidence
  1.0. For the join statement of the spec the edges are \<^verbatim>\<open>orders\<close> and
  \<^verbatim>\<open>customers\<close> to \<^verbatim>\<open>analytics.combined\<close>, both with confidence 1.0.
\<close>

theorem extract_edges_multi_source:
  assumes "node_kind st = Insert \<or> node_kind st = Create \<or> node_kind st = Merge"
    and "find_table st = Some tgt"
    and "\<forall>(t, d) \<in> set (find_all_tables st). d = 0"
    and "parse sql dialect = Parsed [Some st]"
  shows "\<exists>edges. extract_lineage_edges parse sql dialect = Inr edges
   \<and> distinct (map pe_source edges)
   \<and> set (map pe_source edges)
       = (\<lambda>(t, d). sql_table_name t) ` set (find_all_tables st) - {sql_table_name tgt}
   \<and> (\<forall>e \<in> set edges. pe_target e = sql_table_name tgt \<and> pe_confidence e = 1)
   \<and> extract_lineage_edges test_parser insert_join_sql dialect =
       Inr [\<lparr>pe_source = ''orders'', pe_target = ''analytics.combined'', pe_confidence = 1\<rparr>,
            \<lparr>pe_source = ''customers'', pe_target = ''analytics.combined'',
             pe_confidence = 1\<rparr>]"
proof -
  let ?target = "sql_table_name tgt"
  let ?src = "extract_sources st ?target"
  let ?edges = "map (\<lambda>(source, confidence).
             \<lparr>pe_source = source, pe_target = ?target, pe_confidence = confidence\<rparr>) ?src"
  have tg: "extract_target st = Some ?target"
    using assms(1,2) by (simp add: extract_target_write)
  have edges: "extract_lineage_edges parse sql dialect = Inr ?edges"
    by (simp add: extract_lineage_edges_def assms(4) statement_edges_def tg)
  have srcs: "map pe_source ?edges = map fst ?src"
    by (simp add: comp_def case_prod_unfold)
  have "distinct (map fst ?src)"
    unfolding extract_sources_def by (rule sources_loop_distinct)
  then have 1: "distinct (map pe_source ?edges)"
    by (simp only: srcs)
  have "set (map fst ?src)
       = (\<lambda>(t, d). sql_table_name t) ` set (find_all_tables st) - {?target}"
    unfolding extract_sources_def sources_loop_names by simp
  then have 2: "set (map pe_source ?edges)
       = (\<lambda>(t, d). sql_table_name t) ` set (find_all_tables st) - {?target}"
    by (simp only: srcs)
  have 3: "\<forall>e \<in> set ?edges. pe_target e = ?target \<and> pe_confidence e = 1"
  proof
    fix e
    assume "e \<in> set ?edges"
    then obtain n c where nc: "(n, c) \<in> set ?src"
      and e: "e = \<lparr>pe_source = n, pe_target = ?target, pe_confidence = c\<rparr>"
      by auto
    from sources_loop_confidence[OF nc[unfolded extract_sources_def]] assms(3)
    have "c = 1" by (auto simp: compute_confidence_def)
    with e show "pe_target e = ?target \<and> pe_confidence e = 1" by simp
  qed
  have 4: "extract_lineage_edges test_parser insert_join_sql dialect =
       Inr [\<lparr>pe_source = ''orders'', pe_target = ''analytics.combined'', pe_confidence = 1\<rparr>,
            \<lparr>pe_source = ''customers'', pe_target = ''analytics.combined'',
             pe_confidence = 1\<rparr>]"
    by (simp add: extract_lineage_edges_def test_parser_def statement_edges_def
          extract_target_def find_table_def find_all_tables_def walk_root_def
          insert_join_ast_def table_ref_def column_ref_def ident_node_def table_alias_def
          extract_sources_def sql_table_name_def compute_confidence_def Let_def)
  from edges 1 2 3 4 show ?thesis by blast
qed

lemma insert_join_tables:
  "find_all_tables insert_join_ast =
     [(table_ref ''analytics'' ''combined'' [ident_node, ident_node], 0),
      (table_ref [] ''orders'' [ident_node, table_alias], 0),
      (table_ref [] ''customers'' [ident_node, table_alias], 0)]"
  by (simp add: find_all_tables_def walk_root_def insert_join_ast_def table_ref_def
        column_ref_def ident_node_def table_alias_def)

theorem extract_edges_multi_source_witness:
  "\<exists>edges. extract_lineage_edges test_parser insert_join_sql ''postgres'' = Inr edges
   \<and> distinct (map pe_source edges)
   \<and> set (map pe_source edges) = {''orders'', ''customers''}
   \<and> list_all (\<lambda>e. pe_target e = ''analytics.combined'' \<and> pe_confidence e = 1) edges"
proof -
  let ?tgt = "table_ref ''analytics'' ''combined'' [ident_node, ident_node]"
  have k: "node_kind insert_join_ast = Insert \<or> node_kind insert_join_ast = Create
             \<or> node_kind insert_join_ast = Merge"
    by (simp add: insert_join_ast_def)
  have f: "find_table insert_join_ast = Some ?tgt"
    by (simp add: find_table_def insert_join_tables)
  have d: "\<forall>(t, d) \<in> set (find_all_tables insert_join_ast). d = 0"
    by (simp add: insert_join_tables)
  have p: "test_parser insert_join_sql ''postgres'' = Parsed [Some insert_join_ast]"
    by (simp add: test_parser_def)
  have n: "sql_table_name ?tgt = ''analytics.combined''"
    by (simp add: sql_table_name_def table_ref_def)
  have s: "(\<lambda>(t, d). sql_table_name t) ` set (find_all_tables insert_join_ast)
             - {sql_table_name ?tgt} = {''orders'', ''customers''}"
    unfolding insert_join_tables by (auto simp: sql_table_name_def table_ref_def)
  from extract_edges_multi_source[where parse = test_parser and sql = insert_join_sql
         and dialect = "''postgres''", OF k f d p]
  obtain edges where
    r: "extract_lineage_edges test_parser insert_join_sql ''postgres'' = Inr edges"
    and ds: "distinct (map pe_source edges)"
    and ss: "set (map pe_source edges)
       = (\<lambda>(t, d). sql_table_name t) ` set (find_all_tables insert_join_ast)
           - {sql_table_name ?tgt}"
    and es: "\<forall>e \<in> set edges. pe_target e = sql_table_name ?tgt \<and> pe_confidence e = 1"
    by blast
  from ss have ss': "set (map pe_source edges) = {''orders'', ''customers''}"
    by (simp only: s)
  from es have "list_all (\<lambda>e. pe_target e = ''analytics.combined'' \<and> pe_confidence e = 1) edges"
    by (simp only: n list_all_iff)
  with r ds ss' show ?thesis by blast
qed

subsection \<open>Lineage traversal\<close>

lemma new_edges_neighbors:
  "neighbor_of direction ` set (new_edges direction v es)
     = neighbor_of direction ` set es - v"
  by (induction es arbitrary: v) auto

lemma new_edges_subset: "set (new_edges direction v es) \<subseteq> set es"
  by (induction es arbitrary: v) auto

lemma new_edges_distinct: "distinct (map (neighbor_of direction) (new_edges direction v es))"
proof (induction es arbitrary: v)
  case Nil
  show ?case by simp
next
  case (Cons e es)
  have "neighbor_of direction e
          \<notin> neighbor_of direction
              ` set (new_edges direction (insert (neighbor_of direction e) v) es)"
    unfolding new_edges_neighbors by simp
  with Cons.IH show ?case by simp
qed

lemma new_edges_first:
  "e \<in> set (new_edges direction v es) \<Longrightarrow>
     find (\<lambda>e'. neighbor_of direction e' = neighbor_of direction e) es = Some e"
proof (induction es arbitrary: v)
  case Nil
  then show ?case by simp
next
  case (Cons x es)
  show ?case
  proof (cases "neighbor_of direction x \<notin> v")
    case True
    show ?thesis
    proof (cases "e = x")
      case True
      then show ?thesis by simp
    next
      case False
      with Cons.prems True
      have mem: "e \<in> set (new_edges direction (insert (neighbor_of direction x) v) es)"
        by simp
      then have "neighbor_of direction e
                   \<in> neighbor_of direction ` set es - insert (neighbor_of direction x) v"
        unfolding new_edges_neighbors[symmetric] by (rule imageI)
      then have "neighbor_of direction x \<noteq> neighbor_of direction e" by auto
      with Cons.IH[OF mem] show ?thesis by simp
    qed
  next
    case False
    with Cons.prems have mem: "e \<in> set (new_edges direction v es)" by simp
    then have "neighbor_of direction e \<in> neighbor_of direction ` set es - v"
      unfolding new_edges_neighbors[symmetric] by (rule imageI)
    with False have "neighbor_of direction x \<noteq> neighbor_of direction e" by auto
    with Cons.IH[OF mem] show ?thesis by simp
  qed
qed

lemma visit_edges_eq:
  "visit_edges direction cd es (v, r, q) =
     (v \<union> neighbor_of direction ` set es,
      r @ map (node_of_edge direction cd) (new_edges direction v es),
      q @ map (\<lambda>e. (neighbor_of direction e, cd + 1)) (new_edges direction v es))"
proof (induction es arbitrary: v r q)
  case Nil
  show ?case by simp
next
  case (Cons e es)
  show ?case
  proof (cases "neighbor_of direction e \<in> v")
    case True
    then have "v \<union> neighbor_of direction ` set (e # es) = v \<union> neighbor_of direction ` set es"
      by auto
    with True Cons.IH[of v r q] show ?thesis by (simp add: Let_def)
  next
    case False
    have "insert (neighbor_of direction e) v \<union> neighbor_of direction ` set es
            = v \<union> neighbor_of direction ` set (e # es)"
      by auto
    with False Cons.IH[of "insert (neighbor_of direction e) v"] show ?thesis
      by (simp add: Let_def node_of_edge_def)
  qed
qed

lemma bfs_inv_init: "bfs_inv direction depth cutoff edges start [] {start} [] [(start, 0)]"
  by (simp add: bfs_inv_def)

lemma first_reached_extend:
  assumes "first_reached direction depth cutoff edges processed n"
  shows "first_reached direction depth cutoff edges (processed @ later) n"
proof -
  from assms obtain before p dp after e where
    "processed = before @ (p, dp) # after" and
    rest: "dp < depth" "node_depth n = dp + 1"
      "find (\<lambda>e. neighbor_of direction e = node_table n)
         (query_edges direction cutoff edges p) = Some e"
      "node_confidence n = edge_confidence e"
      "\<forall>(p', dp') \<in> set before.
          dp' < depth \<longrightarrow>
          node_table n \<notin> neighbor_of direction ` set (query_edges direction cutoff edges p')"
    unfolding first_reached_def by blast
  then have "processed @ later = before @ (p, dp) # (after @ later)" by simp
  with rest show ?thesis unfolding first_reached_def by blast
qed

lemma bfs_inv_skip:
  assumes inv: "bfs_inv direction depth cutoff edges start processed visited results
                  ((cur, cd) # q)"
    and skip: "depth \<le> cd"
  shows "bfs_inv direction depth cutoff edges start (processed @ [(cur, cd)]) visited results q"
proof -
  have same: "(processed @ [(cur, cd)]) @ q = processed @ (cur, cd) # q" by simp
  from inv have
    A: "processed @ (cur, cd) # q = (start, 0) # map node_key results" and
    B: "visited = fst ` set (processed @ (cur, cd) # q)" and
    C: "distinct (map fst (processed @ (cur, cd) # q))" and
    D: "\<forall>(p, dp) \<in> set processed.
            dp < depth \<longrightarrow>
            neighbor_of direction ` set (query_edges direction cutoff edges p) \<subseteq> visited" and
    E: "\<forall>n \<in> set results. first_reached direction depth cutoff edges processed n" and
    F: "\<forall>(x, k) \<in> set (processed @ (cur, cd) # q).
            0 \<le> k \<and> (start, x) \<in> hop_rel direction cutoff edges ^^ nat k" and
    G: "sorted (map snd (processed @ (cur, cd) # q))" and
    H: "\<forall>(x, k) \<in> set ((cur, cd) # q). \<forall>(y, j) \<in> set ((cur, cd) # q). k \<le> j + 1"
    unfolding bfs_inv_def by blast+
  have D': "\<forall>(p, dp) \<in> set (processed @ [(cur, cd)]).
            dp < depth \<longrightarrow>
            neighbor_of direction ` set (query_edges direction cutoff edges p) \<subseteq> visited"
    using D skip by auto
  have E': "\<forall>n \<in> set results.
              first_reached direction depth cutoff edges (processed @ [(cur, cd)]) n"
    using E first_reached_extend by blast
  have H': "\<forall>(x, k) \<in> set q. \<forall>(y, j) \<in> set q. k \<le> j + 1"
    using H by auto
  show ?thesis
    unfolding bfs_inv_def same using A B C D' E' F G H' by blast
qed

lemma sorted_map_const: "sorted (map (\<lambda>_. (c::int)) xs)"
  by (induction xs) auto

lemma bfs_inv_expand:
  assumes inv: "bfs_inv direction depth cutoff edges start processed visited results
                  ((cur, cd) # q)"
    and expand: "cd < depth"
  shows "bfs_inv direction depth cutoff edges start (processed @ [(cur, cd)])
           (visited \<union> neighbor_of direction ` set (query_edges direction cutoff edges cur))
           (results @ map (node_of_edge direction cd)
              (new_edges direction visited (query_edges direction cutoff edges cur)))
           (q @ map (\<lambda>e. (neighbor_of direction e, cd + 1))
              (new_edges direction visited (query_edges direction cutoff edges cur)))"
proof -
  let ?Q = "query_edges direction cutoff edges cur"
  let ?NE = "new_edges direction visited ?Q"
  let ?old = "processed @ (cur, cd) # q"
  let ?added = "map (\<lambda>e. (neighbor_of direction e, cd + 1)) ?NE"
  let ?H = "hop_rel direction cutoff edges"
  from inv have
    A: "?old = (start, 0) # map node_key results" and
    B: "visited = fst ` set ?old" and
    C: "distinct (map fst ?old)" and
    D: "\<forall>(p, dp) \<in> set processed.
            dp < depth \<longrightarrow>
            neighbor_of direction ` set (query_edges direction cutoff edges p) \<subseteq> visited" and
    E: "\<forall>n \<in> set results. first_reached direction depth cutoff edges processed n" and
    F: "\<forall>(x, k) \<in> set ?old. 0 \<le> k \<and> (start, x) \<in> ?H ^^ nat k" and
    G: "sorted (map snd ?old)" and
    H: "\<forall>(x, k) \<in> set ((cur, cd) # q). \<forall>(y, j) \<in> set ((cur, cd) # q). k \<le> j + 1"
    unfolding bfs_inv_def by blast+
  have whole: "(processed @ [(cur, cd)])
                 @ (q @ ?added) = ?old @ ?added"
    by simp
  have keys: "map node_key (map (node_of_edge direction cd) ?NE) = ?added"
    by (simp add: node_key_def node_of_edge_def comp_def)
  have names: "map fst ?added = map (neighbor_of direction) ?NE"
    by (simp add: comp_def)
  have fresh: "neighbor_of direction ` set ?NE = neighbor_of direction ` set ?Q - visited"
    by (rule new_edges_neighbors)
  have A': "?old @ ?added
              = (start, 0) # map node_key (results @ map (node_of_edge direction cd) ?NE)"
    using A keys by simp
  have B': "visited \<union> neighbor_of direction ` set ?Q = fst ` set (?old @ ?added)"
  proof -
    have "fst ` set ?added = neighbor_of direction ` set ?NE"
      by (simp add: image_image)
    with fresh B show ?thesis by (auto simp: image_Un)
  qed
  have C': "distinct (map fst (?old @ ?added))"
  proof -
    have d1: "distinct (map fst ?added)"
      unfolding names by (rule new_edges_distinct)
    have d2: "set (map fst ?old) \<inter> set (map fst ?added) = {}"
      using fresh B unfolding names by auto
    have "distinct (map fst ?old @ map fst ?added)"
      unfolding distinct_append using C d1 d2 by blast
    then show ?thesis by (simp only: map_append)
  qed
  have D': "\<forall>(p, dp) \<in> set (processed @ [(cur, cd)]).
            dp < depth \<longrightarrow>
            neighbor_of direction ` set (query_edges direction cutoff edges p)
              \<subseteq> visited \<union> neighbor_of direction ` set ?Q"
  proof (clarify)
    fix p dp e
    assume m: "(p, dp) \<in> set (processed @ [(cur, cd)])" and lt: "dp < depth"
      and e: "e \<in> set (query_edges direction cutoff edges p)"
      and n: "neighbor_of direction e \<notin> neighbor_of direction ` set ?Q"
    from n e have "p \<noteq> cur" by auto
    with m have "(p, dp) \<in> set processed" by simp
    with D lt have "neighbor_of direction ` set (query_edges direction cutoff edges p)
                      \<subseteq> visited" by blast
    with e show "neighbor_of direction e \<in> visited" by blast
  qed
  have cur_ok: "0 \<le> cd" "(start, cur) \<in> ?H ^^ nat cd"
    using F by auto
  have E': "\<forall>n \<in> set (results @ map (node_of_edge direction cd) ?NE).
              first_reached direction depth cutoff edges (processed @ [(cur, cd)]) n"
  proof
    fix n
    assume "n \<in> set (results @ map (node_of_edge direction cd) ?NE)"
    then consider "n \<in> set results" | e where "e \<in> set ?NE" "n = node_of_edge direction cd e"
      by auto
    then show "first_reached direction depth cutoff edges (processed @ [(cur, cd)]) n"
    proof cases
      case 1
      with E show ?thesis using first_reached_extend by blast
    next
      case 2
      have tbl: "node_table n = neighbor_of direction e"
        and dep: "node_depth n = cd + 1"
        and conf: "node_confidence n = edge_confidence e"
        using 2(2) by (simp_all add: node_of_edge_def)
      have first: "find (\<lambda>e'. neighbor_of direction e' = node_table n) ?Q = Some e"
        unfolding tbl using 2(1) by (rule new_edges_first)
      have "neighbor_of direction e \<in> neighbor_of direction ` set ?NE"
        using 2(1) by (rule imageI)
      with fresh have unvisited: "node_table n \<notin> visited" unfolding tbl by simp
      have earlier: "\<forall>(p', dp') \<in> set processed.
              dp' < depth \<longrightarrow>
              node_table n
                \<notin> neighbor_of direction ` set (query_edges direction cutoff edges p')"
      proof (clarify)
        fix p' dp' e'
        assume "(p', dp') \<in> set processed" "dp' < depth"
          and e': "e' \<in> set (query_edges direction cutoff edges p')"
          and eq: "node_table n = neighbor_of direction e'"
        with D have "neighbor_of direction ` set (query_edges direction cutoff edges p')
                       \<subseteq> visited" by blast
        with e' eq unvisited show False by auto
      qed
      have "processed @ [(cur, cd)] = processed @ (cur, cd) # []" by simp
      with expand dep first conf earlier show ?thesis
        unfolding first_reached_def by blast
    qed
  qed
  have F': "\<forall>(x, k) \<in> set (?old @ ?added). 0 \<le> k \<and> (start, x) \<in> ?H ^^ nat k"
  proof -
    have "0 \<le> cd + 1 \<and> (start, neighbor_of direction e) \<in> ?H ^^ nat (cd + 1)"
      if "e \<in> set ?NE" for e
    proof -
      from that new_edges_subset have "e \<in> set ?Q" by blast
      then have "(cur, neighbor_of direction e) \<in> ?H"
        unfolding hop_rel_def by blast
      with cur_ok(2) have "(start, neighbor_of direction e) \<in> ?H ^^ Suc (nat cd)"
        by (rule relpow_Suc_I)
      moreover from cur_ok(1) have "nat (cd + 1) = Suc (nat cd)" by simp
      ultimately show ?thesis using cur_ok(1) by simp
    qed
    with F show ?thesis by auto
  qed
  have low: "cd \<le> k" if "(x, k) \<in> set q" for x k
    using G that by (auto simp: sorted_append)
  have high: "k \<le> cd + 1" if "(x, k) \<in> set q" for x k
    using H that by auto
  have before: "k \<le> cd" if "(x, k) \<in> set processed" for x k
    using G that by (force simp: sorted_append)
  have G': "sorted (map snd (?old @ ?added))"
  proof -
    have "map snd ?added = map (\<lambda>_. cd + 1) ?NE" by (simp add: comp_def)
    then have "sorted (map snd ?added)" by (simp only: sorted_map_const)
    moreover have "\<forall>a \<in> set (map snd ?old). \<forall>b \<in> set (map snd ?added). a \<le> b"
      using before high by fastforce
    ultimately have "sorted (map snd ?old @ map snd ?added)"
      unfolding sorted_append using G by blast
    then show ?thesis by (simp only: map_append)
  qed
  have H': "\<forall>(x, k) \<in> set (q @ ?added). \<forall>(y, j) \<in> set (q @ ?added). k \<le> j + 1"
    using low high by fastforce
  show ?thesis
    unfolding bfs_inv_def whole using A' B' C' D' E' F' G' H' by blast
qed

lemma bfs_loop_inv:
  assumes "bfs_inv direction depth cutoff edges start processed visited results queue"
  shows "\<exists>visited'.
           bfs_inv direction depth cutoff edges start
             ((start, 0) # map node_key
                (bfs_loop direction depth cutoff edges (visited, results, queue)))
             visited'
             (bfs_loop direction depth cutoff edges (visited, results, queue)) []"
  using assms
proof (induction direction depth cutoff edges "(visited, results, queue)"
         arbitrary: processed visited results queue rule: bfs_loop.induct)
  case (1 direction depth cutoff edges visited results)
  then have "processed = (start, 0) # map node_key results"
    by (simp add: bfs_inv_def)
  with 1 show ?case by auto
next
  case (2 direction depth cutoff edges visited results current current_depth queue)
  show ?case
  proof (cases "depth \<le> current_depth")
    case True
    from bfs_inv_skip[OF "2.prems" True]
    have "bfs_inv direction depth cutoff edges start (processed @ [(current, current_depth)])
            visited results queue" .
    from "2.hyps"(1)[OF True this] True show ?thesis by simp
  next
    case False
    then have lt: "current_depth < depth" by simp
    let ?Q = "query_edges direction cutoff edges current"
    let ?NE = "new_edges direction visited ?Q"
    have step: "visit_edges direction current_depth ?Q (visited, results, queue) =
       (visited \<union> neighbor_of direction ` set ?Q,
        results @ map (node_of_edge direction current_depth) ?NE,
        queue @ map (\<lambda>e. (neighbor_of direction e, current_depth + 1)) ?NE)"
      by (rule visit_edges_eq)
    from bfs_inv_expand[OF "2.prems" lt]
    have "bfs_inv direction depth cutoff edges start (processed @ [(current, current_depth)])
           (visited \<union> neighbor_of direction ` set ?Q)
           (results @ map (node_of_edge direction current_depth) ?NE)
           (queue @ map (\<lambda>e. (neighbor_of direction e, current_depth + 1)) ?NE)" .
    from "2.hyps"(2)[OF False step this] False show ?thesis by (simp add: step)
  qed
qed

lemma find_Some_mem: "find P xs = Some x \<Longrightarrow> x \<in> set xs \<and> P x"
  by (induction xs) (auto split: if_splits)

lemma bfs_final_inv:
  "\<exists>visited'.
     bfs_inv direction depth (stale_cutoff now) edges start
       ((start, 0) # map node_key (bfs edges now start depth direction))
       visited' (bfs edges now start depth direction) []"
  unfolding bfs_def by (rule bfs_loop_inv) (rule bfs_inv_init)

text \<open>
  C8. For every start table, depth bound and direction (\<^verbatim>\<open>get_downstream\<close>
  follows the edges from source to target, \<^verbatim>\<open>get_upstream\<close> against them), over
  the edges last seen since the cutoff: no table appears twice in the result
  and the start never does; every node has a depth between 1 and the bound
  and is reachable from the start in exactly that many hops; the depths never
  decrease along the result (BFS order); and every node was first reached:
  among the start and the result nodes in result order, the earliest table
  below the depth bound with an edge to the node is its parent, the node is
  one level deeper, and its confidence is that of the first edge, in store
  order, from the parent to it. In particular the confidence is that of an
  edge of the filtered set which ends at the node.
\<close>

theorem lineage_bfs_invariants:
  "distinct (map node_table (bfs edges now start depth direction))
   \<and> start \<notin> set (map node_table (bfs edges now start depth direction))
   \<and> (\<forall>n \<in> set (bfs edges now start depth direction).
         1 \<le> node_depth n \<and> node_depth n \<le> depth
         \<and> (start, node_table n)
             \<in> hop_rel direction (stale_cutoff now) edges ^^ nat (node_depth n))
   \<and> sorted (map node_depth (bfs edges now start depth direction))
   \<and> (\<forall>n \<in> set (bfs edges now start depth direction).
         first_reached direction depth (stale_cutoff now) edges
           ((start, 0) # map node_key (bfs edges now start depth direction)) n)
   \<and> (\<forall>n \<in> set (bfs edges now start depth direction).
         \<exists>e \<in> set edges.
           stale_cutoff now \<le> last_seen_at e
           \<and> neighbor_of direction e = node_table n
           \<and> edge_confidence e = node_confidence n)
   \<and> get_downstream edges now start depth = bfs edges now start depth ''downstream''
   \<and> get_upstream edges now start depth = bfs edges now start depth ''upstream''"
proof -
  let ?res = "bfs edges now start depth direction"
  let ?order = "(start, 0) # map node_key ?res"
  let ?cutoff = "stale_cutoff now"
  from bfs_final_inv obtain visited' where
    "bfs_inv direction depth ?cutoff edges start ?order visited' ?res []"
    by blast
  then have
    C: "distinct (map fst ?order)" and
    E: "\<forall>n \<in> set ?res. first_reached direction depth ?cutoff edges ?order n" and
    F: "\<forall>(x, k) \<in> set ?order.
          0 \<le> k \<and> (start, x) \<in> hop_rel direction ?cutoff edges ^^ nat k" and
    G: "sorted (map snd ?order)"
    unfolding bfs_inv_def by simp_all
  have names: "map fst ?order = start # map node_table ?res"
    by (simp add: node_key_def comp_def)
  have depths: "map snd ?order = 0 # map node_depth ?res"
    by (simp add: node_key_def comp_def)
  from C have 1: "distinct (map node_table ?res)"
    and 2: "start \<notin> set (map node_table ?res)"
    unfolding names by simp_all
  from G have 4: "sorted (map node_depth ?res)"
    unfolding depths by simp
  have 3: "\<forall>n \<in> set ?res.
         1 \<le> node_depth n \<and> node_depth n \<le> depth
         \<and> (start, node_table n) \<in> hop_rel direction ?cutoff edges ^^ nat (node_depth n)"
  proof
    fix n
    assume n: "n \<in> set ?res"
    then have "(node_table n, node_depth n) \<in> set ?order"
      by (auto simp: node_key_def image_iff)
    with F have reach: "(start, node_table n)
                          \<in> hop_rel direction ?cutoff edges ^^ nat (node_depth n)"
      by blast
    from E n obtain before p dp after where
      o: "?order = before @ (p, dp) # after" and lt: "dp < depth"
      and d: "node_depth n = dp + 1"
      unfolding first_reached_def by blast
    from o have "(p, dp) \<in> set ?order" by simp
    with F have "0 \<le> dp" by blast
    with lt d reach
    show "1 \<le> node_depth n \<and> node_depth n \<le> depth
          \<and> (start, node_table n) \<in> hop_rel direction ?cutoff edges ^^ nat (node_depth n)"
      by simp
  qed
  have 6: "\<forall>n \<in> set ?res.
         \<exists>e \<in> set edges.
           ?cutoff \<le> last_seen_at e
           \<and> neighbor_of direction e = node_table n
           \<and> edge_confidence e = node_confidence n"
  proof
    fix n
    assume "n \<in> set ?res"
    with E obtain p e where
      f: "find (\<lambda>e. neighbor_of direction e = node_table n)
            (query_edges direction ?cutoff edges p) = Some e"
      and c: "node_confidence n = edge_confidence e"
      unfolding first_reached_def by blast
    from find_Some_mem[OF f]
    have "e \<in> set (query_edges direction ?cutoff edges p)"
      and "neighbor_of direction e = node_table n" by simp_all
    with c show "\<exists>e \<in> set edges.
           ?cutoff \<le> last_seen_at e
           \<and> neighbor_of direction e = node_table n
           \<and> edge_confidence e = node_confidence n"
      by (auto simp: query_edges_def)
  qed
  from 1 2 3 4 E 6 show ?thesis
    by (simp add: get_downstream_def get_upstream_def)
qed

lemma diamond_downstream:
  "bfs diamond_edges diamond_now ''a'' 3 ''downstream'' =
     [\<lparr>node_table = ''b'', node_depth = 1, node_confidence = 9 / 10\<rparr>,
      \<lparr>node_table = ''c'', node_depth = 1, node_confidence = 5 / 10\<rparr>,
      \<lparr>node_table = ''d'', node_depth = 2, node_confidence = 7 / 10\<rparr>]"
  by code_simp

lemma sample_upstream:
  "get_upstream sample_lineage_edges 0 ''analytics.orders'' 3 =
     [\<lparr>node_table = ''staging.orders'', node_depth = 1, node_confidence = 1\<rparr>,
      \<lparr>node_table = ''raw.orders'', node_depth = 2, node_confidence = 1\<rparr>]"
  by code_simp

text \<open>
  In the diamond, \<open>d\<close> is reached first from \<open>b\<close>, the earlier of its two
  parents in BFS order, and carries the confidence of \<open>b \<rightarrow> d\<close> although the
  store lists \<open>c \<rightarrow> d\<close> first; the stale edge to \<open>s\<close> is not followed.
\<close>

theorem lineage_bfs_invariants_witness:
  "distinct (map node_table (bfs diamond_edges diamond_now ''a'' 3 ''downstream''))
   \<and> sorted (map node_depth (bfs diamond_edges diamond_now ''a'' 3 ''downstream''))
   \<and> list_all (\<lambda>n. 1 \<le> node_depth n \<and> node_depth n \<le> 3)
        (bfs diamond_edges diamond_now ''a'' 3 ''downstream'')
   \<and> map node_table (bfs diamond_edges diamond_now ''a'' 3 ''downstream'')
       = [''b'', ''c'', ''d'']
   \<and> map node_confidence (bfs diamond_edges diamond_now ''a'' 3 ''downstream'')
       = [9 / 10, 5 / 10, 7 / 10]
   \<and> get_upstream sample_lineage_edges 0 ''analytics.orders'' 3
       = bfs sample_lineage_edges 0 ''analytics.orders'' 3 ''upstream''"
proof -
  from lineage_bfs_invariants[of diamond_edges diamond_now "''a''" 3 "''downstream''"]
  have 1: "distinct (map node_table (bfs diamond_edges diamond_now ''a'' 3 ''downstream''))
     \<and> sorted (map node_depth (bfs diamond_edges diamond_now ''a'' 3 ''downstream''))
     \<and> list_all (\<lambda>n. 1 \<le> node_depth n \<and> node_depth n \<le> 3)
          (bfs diamond_edges diamond_now ''a'' 3 ''downstream'')"
    by (simp add: list_all_iff)
  from lineage_bfs_invariants[of sample_lineage_edges 0 "''analytics.orders''" 3 "''upstream''"]
  have 2: "get_upstream sample_lineage_edges 0 ''analytics.orders'' 3
             = bfs sample_lineage_edges 0 ''analytics.orders'' 3 ''upstream''"
    by simp
  have 3: "map node_table (bfs diamond_edges diamond_now ''a'' 3 ''downstream'')
             = [''b'', ''c'', ''d'']
     \<and> map node_confidence (bfs diamond_edges diamond_now ''a'' 3 ''downstream'')
         = [9 / 10, 5 / 10, 7 / 10]"
    unfolding diamond_downstream by simp
  from 1 2 3 show ?thesis by blast
qed

end
